theory Spec2Isabelle
  imports Complex_Main
begin

section \<open>The page that the scripts run in\<close>

text \<open>
  The repository holds two scripts, \<^verbatim>\<open>staticfiles/js/script.js\<close> (the page
  interaction script) and \<^verbatim>\<open>car_rental/static/js/main.js\<close> (the carousel
  controller). Both only register callbacks with the browser, so the embedding has two
  layers: the bodies of the callbacks, translated statement by statement from the
  source, and a small model of what the browser does with them (element lookup, class
  lists, listeners, timers, uncaught exceptions).

  An element reference is the position of the element in document order; the scripts
  never insert or delete elements, so a reference obtained once stays valid. A lookup
  that finds nothing is \<open>None\<close> (JavaScript \<^verbatim>\<open>null\<close>), and a property access on
  \<^verbatim>\<open>null\<close> is the exception \<open>TypeError\<close>.
\<close>

type_synonym node = nat

record element =
  parent :: "node option"
  attrs :: "string \<Rightarrow> string option"
  classList :: "string list"
  nativeFocus :: bool
  hidden :: bool
  disabled :: bool
  inert :: bool

text \<open>
  \<open>parent\<close> is the enclosing element, if there is one; in document order it comes before
  the element. \<open>nativeFocus\<close> says that the element takes focus without a tabindex (a
  link, a button, a form control). \<open>hidden\<close>, \<open>disabled\<close> and \<open>inert\<close> say that the
  element is not being rendered, is a disabled control, or is inert, whether by its own
  markup and style or by that of an enclosing element; the scripts never change them, and
  style sheets are not modelled.
\<close>

datatype error = TypeError

datatype target = Window | Document | Elem node

datatype event_type =
  EvDOMContentLoaded | EvLoad | EvScroll | EvClick | EvMouseEnter | EvMouseLeave

text \<open>
  The anonymous functions of the source, each with the variables its closure captures.
  \<open>NavbarScroll\<close> and \<open>BackToTopScroll\<close> capture the result of an unguarded lookup, which
  may be \<^verbatim>\<open>null\<close>; \<open>PreloaderLoad\<close> and \<open>PreloaderTimeout\<close> are only created under
  \<^verbatim>\<open>if (preloader)\<close> and capture an element.
\<close>

datatype callback =
    ScriptReady
  | PreloaderLoad node
  | PreloaderTimeout node
  | NavbarScroll "node option"
  | BackToTopScroll "node option"
  | BackToTopClick
  | SkipLinkClick
  | MainReady
  | CarouselMouseEnter nat
  | CarouselMouseLeave nat

record scroll_options =
  sc_top :: real
  sc_smooth :: bool

record carousel_config =
  cfg_interval :: nat
  cfg_wrap :: bool
  cfg_keyboard :: bool

datatype carousel_call = Pause | Cycle

text \<open>
  The carousel widget belongs to a third-party library. The model keeps what the script
  hands to it: the element and the configuration given to the constructor, and the
  sequence of \<^verbatim>\<open>pause()\<close> and \<^verbatim>\<open>cycle()\<close> calls it has received.
\<close>

record carousel =
  boundTo :: "node option"
  config :: carousel_config
  calls :: "carousel_call list"

record page =
  elements :: "element list"
  scrollY :: real
  activeElement :: "node option"
  listeners :: "(target \<times> event_type \<times> callback) list"
  timers :: "(nat \<times> callback) list"
  now :: nat
  defaultPrevented :: bool
  scrollToCalls :: "scroll_options list"
  carousels :: "carousel list"
  ctorRejectsNull :: bool
  uncaught :: "error list"
  defaultActions :: "node list"
  ran :: "(nat \<times> callback) list"

text \<open>
  \<open>scrollY\<close> is a real number: \<^verbatim>\<open>window.scrollY\<close> is a finite double, and the
  comparisons of the source agree with the order of the reals on those.
  \<open>now\<close> counts milliseconds. \<open>defaultPrevented\<close> is the flag of the event being
  dispatched. \<open>ctorRejectsNull\<close> says whether the library's constructor throws when it
  is given \<^verbatim>\<open>null\<close>; the source does not decide it. The last three fields are the
  browser's record of what happened: exceptions no handler caught, clicks whose default
  action was carried out, and the callbacks the event loop has run, with the time.
\<close>

datatype completion = Normal page | Throw error page

subsection \<open>Browser operations the scripts call\<close>

fun first_index :: "('a \<Rightarrow> bool) \<Rightarrow> 'a list \<Rightarrow> nat option" where
  "first_index P [] = None"
| "first_index P (x # xs) = (if P x then Some 0 else map_option Suc (first_index P xs))"

definition getElementById :: "element list \<Rightarrow> string \<Rightarrow> node option" where
  "getElementById d i = first_index (\<lambda>e. attrs e ''id'' = Some i) d"

definition querySelector_class :: "element list \<Rightarrow> string \<Rightarrow> node option" where
  \<comment> \<open>\<^verbatim>\<open>document.querySelector('.c')\<close>: the first element carrying the class.\<close>
  "querySelector_class d c = first_index (\<lambda>e. c \<in> set (classList e)) d"

definition add_token :: "string \<Rightarrow> element \<Rightarrow> element" where
  "add_token c e =
     e\<lparr>classList := (if c \<in> set (classList e) then classList e else classList e @ [c])\<rparr>"

definition remove_token :: "string \<Rightarrow> element \<Rightarrow> element" where
  "remove_token c e = e\<lparr>classList := removeAll c (classList e)\<rparr>"

definition update_element :: "node \<Rightarrow> (element \<Rightarrow> element) \<Rightarrow> page \<Rightarrow> page" where
  "update_element n f p = p\<lparr>elements := (elements p)[n := f (elements p ! n)]\<rparr>"

definition classList_add :: "node \<Rightarrow> string \<Rightarrow> page \<Rightarrow> page" where
  "classList_add n c p = update_element n (add_token c) p"

definition classList_remove :: "node \<Rightarrow> string \<Rightarrow> page \<Rightarrow> page" where
  "classList_remove n c p = update_element n (remove_token c) p"

definition setAttribute :: "node \<Rightarrow> string \<Rightarrow> string \<Rightarrow> page \<Rightarrow> page" where
  "setAttribute n k v p = update_element n (\<lambda>e. e\<lparr>attrs := (attrs e)(k \<mapsto> v)\<rparr>) p"

definition is_space :: "char \<Rightarrow> bool" where
  "is_space c \<longleftrightarrow> c \<in> {CHR 0x09, CHR 0x0A, CHR 0x0C, CHR 0x0D, CHR 0x20}"

definition is_digit :: "char \<Rightarrow> bool" where
  "is_digit c \<longleftrightarrow> c \<in> set ''0123456789''"

definition parses_integer :: "string \<Rightarrow> bool" where
  \<comment> \<open>The attribute value is an integer for HTML: white space, an optional sign, a digit.\<close>
  "parses_integer v =
     (case dropWhile is_space v of
        [] \<Rightarrow> False
      | c # r \<Rightarrow>
          if c = CHR ''-'' \<or> c = CHR ''+'' then (case r of [] \<Rightarrow> False | c' # _ \<Rightarrow> is_digit c')
          else is_digit c)"

definition focusable :: "element \<Rightarrow> bool" where
  \<comment> \<open>An element can take focus when it is rendered, not disabled and not inert, and is
      focusable by nature or has a tabindex that is an integer.\<close>
  "focusable e \<longleftrightarrow>
     \<not> hidden e \<and> \<not> disabled e \<and> \<not> inert e \<and>
     (nativeFocus e \<or>
      (case attrs e ''tabindex'' of Some v \<Rightarrow> parses_integer v | None \<Rightarrow> False))"

definition focus :: "node \<Rightarrow> page \<Rightarrow> page" where
  \<comment> \<open>\<^verbatim>\<open>element.focus()\<close> does nothing on an element that cannot take focus.\<close>
  "focus n p = (if focusable (elements p ! n) then p\<lparr>activeElement := Some n\<rparr> else p)"

definition addEventListener :: "target \<Rightarrow> event_type \<Rightarrow> callback \<Rightarrow> page \<Rightarrow> page" where
  "addEventListener t ty cb p = p\<lparr>listeners := listeners p @ [(t, ty, cb)]\<rparr>"

definition setTimeout :: "callback \<Rightarrow> nat \<Rightarrow> page \<Rightarrow> page" where
  "setTimeout cb ms p = p\<lparr>timers := timers p @ [(now p + ms, cb)]\<rparr>"

definition preventDefault :: "page \<Rightarrow> page" where
  "preventDefault p = p\<lparr>defaultPrevented := True\<rparr>"

definition scrollTo :: "scroll_options \<Rightarrow> page \<Rightarrow> page" where
  "scrollTo opts p = p\<lparr>scrollToCalls := scrollToCalls p @ [opts]\<rparr>"

definition new_Carousel ::
    "node option \<Rightarrow> carousel_config \<Rightarrow> page \<Rightarrow> error + (nat \<times> page)" where
  "new_Carousel el cfg p =
     (if el = None \<and> ctorRejectsNull p then Inl TypeError
      else Inr (length (carousels p),
                p\<lparr>carousels := carousels p @ [\<lparr>boundTo = el, config = cfg, calls = []\<rparr>]\<rparr>))"

definition carousel_call :: "nat \<Rightarrow> carousel_call \<Rightarrow> page \<Rightarrow> page" where
  "carousel_call w c p =
     p\<lparr>carousels := (carousels p)[w := (carousels p ! w)\<lparr>calls := calls (carousels p ! w) @ [c]\<rparr>]\<rparr>"

definition auto_advancing :: "carousel \<Rightarrow> bool option" where
  \<comment> \<open>What the calls received so far say about auto-advance: \<^verbatim>\<open>cycle()\<close> starts it,
      \<^verbatim>\<open>pause()\<close> stops it, and before any call the library decides.\<close>
  "auto_advancing w =
     (case rev (calls w) of [] \<Rightarrow> None | Cycle # _ \<Rightarrow> Some True | Pause # _ \<Rightarrow> Some False)"

section \<open>staticfiles/js/script.js\<close>

definition preloader_load :: "node \<Rightarrow> page \<Rightarrow> completion" where
  \<comment> \<open>lines 5 to 10: the load handler, registered under \<^verbatim>\<open>if (preloader)\<close>\<close>
  "preloader_load preloader p = Normal (setTimeout (PreloaderTimeout preloader) 500 p)"

definition preloader_timeout :: "node \<Rightarrow> page \<Rightarrow> completion" where
  \<comment> \<open>lines 7 to 9: the callback handed to \<^verbatim>\<open>setTimeout\<close>\<close>
  "preloader_timeout preloader p = Normal (classList_add preloader ''hidden'' p)"

definition navbar_scroll :: "node option \<Rightarrow> page \<Rightarrow> completion" where
  \<comment> \<open>lines 16 to 22; \<^verbatim>\<open>navbar.classList\<close> throws when \<^verbatim>\<open>navbar\<close> is \<^verbatim>\<open>null\<close>\<close>
  "navbar_scroll navbar p =
     (if scrollY p > 50 then
        (case navbar of
           None \<Rightarrow> Throw TypeError p
         | Some n \<Rightarrow> Normal (classList_add n ''navbar-scrolled'' p))
      else
        (case navbar of
           None \<Rightarrow> Throw TypeError p
         | Some n \<Rightarrow> Normal (classList_remove n ''navbar-scrolled'' p)))"

definition backToTop_scroll :: "node option \<Rightarrow> page \<Rightarrow> completion" where
  \<comment> \<open>lines 27 to 33\<close>
  "backToTop_scroll backToTopButton p =
     (if scrollY p > 300 then
        (case backToTopButton of
           None \<Rightarrow> Throw TypeError p
         | Some n \<Rightarrow> Normal (classList_add n ''show'' p))
      else
        (case backToTopButton of
           None \<Rightarrow> Throw TypeError p
         | Some n \<Rightarrow> Normal (classList_remove n ''show'' p)))"

definition backToTop_click :: "page \<Rightarrow> completion" where
  \<comment> \<open>lines 35 to 41\<close>
  "backToTop_click p =
     Normal (scrollTo \<lparr>sc_top = 0, sc_smooth = True\<rparr> (preventDefault p))"

definition skipLink_click :: "page \<Rightarrow> completion" where
  \<comment> \<open>lines 46 to 54; the landmark is looked up at each click, under \<^verbatim>\<open>if (mainContent)\<close>\<close>
  "skipLink_click p =
     (let p1 = preventDefault p;
          mainContent = getElementById (elements p1) ''main-content''
      in case mainContent of
           Some m \<Rightarrow> Normal (focus m (setAttribute m ''tabindex'' ''-1'' p1))
         | None \<Rightarrow> Normal p1)"

definition script_ready :: "page \<Rightarrow> completion" where
  \<comment> \<open>lines 1 to 56: the ready handler. \<^verbatim>\<open>backToTopButton.addEventListener\<close> (line 35)
      throws when the lookup of line 25 found nothing, and the rest is not reached.\<close>
  "script_ready p0 =
     (let preloader = querySelector_class (elements p0) ''preloader'';
          p1 = (case preloader of
                  Some pl \<Rightarrow> addEventListener Window EvLoad (PreloaderLoad pl) p0
                | None \<Rightarrow> p0);
          navbar = getElementById (elements p1) ''mainNavbar'';
          p2 = addEventListener Window EvScroll (NavbarScroll navbar) p1;
          backToTopButton = getElementById (elements p2) ''backToTop'';
          p3 = addEventListener Window EvScroll (BackToTopScroll backToTopButton) p2
      in case backToTopButton of
           None \<Rightarrow> Throw TypeError p3
         | Some b \<Rightarrow>
             (let p4 = addEventListener (Elem b) EvClick BackToTopClick p3;
                  skipLink = querySelector_class (elements p4) ''sr-only-focusable'';
                  p5 = (case skipLink of
                          Some s \<Rightarrow> addEventListener (Elem s) EvClick SkipLinkClick p4
                        | None \<Rightarrow> p4)
              in Normal p5))"

section \<open>car_rental/static/js/main.js\<close>

definition carousel_mouseenter :: "nat \<Rightarrow> page \<Rightarrow> completion" where
  \<comment> \<open>lines 11 to 13\<close>
  "carousel_mouseenter carousel p = Normal (carousel_call carousel Pause p)"

definition carousel_mouseleave :: "nat \<Rightarrow> page \<Rightarrow> completion" where
  \<comment> \<open>lines 15 to 17\<close>
  "carousel_mouseleave carousel p = Normal (carousel_call carousel Cycle p)"

definition main_ready :: "page \<Rightarrow> completion" where
  \<comment> \<open>lines 1 to 18: the ready handler. If the constructor accepts \<^verbatim>\<open>null\<close>,
      \<^verbatim>\<open>carouselElement.addEventListener\<close> (line 11) throws on it.\<close>
  "main_ready p0 =
     (let carouselElement = getElementById (elements p0) ''carCarousel''
      in case new_Carousel carouselElement
                \<lparr>cfg_interval = 5000, cfg_wrap = True, cfg_keyboard = True\<rparr> p0 of
           Inl e \<Rightarrow> Throw e p0
         | Inr (carousel, p1) \<Rightarrow>
             (case carouselElement of
                None \<Rightarrow> Throw TypeError p1
              | Some c \<Rightarrow>
                  Normal (addEventListener (Elem c) EvMouseLeave (CarouselMouseLeave carousel)
                           (addEventListener (Elem c) EvMouseEnter (CarouselMouseEnter carousel)
                              p1))))"

section \<open>The event loop\<close>

fun run_callback :: "callback \<Rightarrow> page \<Rightarrow> completion" where
  "run_callback ScriptReady p = script_ready p"
| "run_callback (PreloaderLoad pl) p = preloader_load pl p"
| "run_callback (PreloaderTimeout pl) p = preloader_timeout pl p"
| "run_callback (NavbarScroll nav) p = navbar_scroll nav p"
| "run_callback (BackToTopScroll b) p = backToTop_scroll b p"
| "run_callback BackToTopClick p = backToTop_click p"
| "run_callback SkipLinkClick p = skipLink_click p"
| "run_callback MainReady p = main_ready p"
| "run_callback (CarouselMouseEnter w) p = carousel_mouseenter w p"
| "run_callback (CarouselMouseLeave w) p = carousel_mouseleave w p"

text \<open>
  The event loop runs one callback to completion. An exception ends that callback only:
  what it had done stays done, the exception is reported, and the loop goes on.
\<close>

definition invoke :: "callback \<Rightarrow> page \<Rightarrow> page" where
  "invoke cb p =
     (case run_callback cb (p\<lparr>ran := ran p @ [(now p, cb)]\<rparr>) of
        Normal q \<Rightarrow> q
      | Throw e q \<Rightarrow> q\<lparr>uncaught := uncaught q @ [e]\<rparr>)"

fun deliver :: "(target \<times> event_type \<times> callback) list \<Rightarrow> target \<Rightarrow> event_type \<Rightarrow> page \<Rightarrow> page" where
  "deliver [] t ty p = p"
| "deliver ((t', ty', cb) # ls) t ty p =
     (if t' = t \<and> ty' = ty then deliver ls t ty (invoke cb p) else deliver ls t ty p)"

definition fire :: "target \<Rightarrow> event_type \<Rightarrow> page \<Rightarrow> page" where
  \<comment> \<open>The listeners registered when the dispatch starts, in registration order.\<close>
  "fire t ty p = deliver (listeners p) t ty p"

text \<open>
  A timer set by \<^verbatim>\<open>setTimeout(f, ms)\<close> is due \<open>ms\<close> milliseconds after the call. When time
  passes, the timers that have become due are taken off the list and their callbacks run,
  earliest first; a callback never runs before its timer is due.
\<close>

definition run_timers :: "page \<Rightarrow> page" where
  "run_timers p =
     (let due = filter (\<lambda>(t, cb). t \<le> now p) (timers p);
          rest = filter (\<lambda>(t, cb). \<not> t \<le> now p) (timers p)
      in foldl (\<lambda>q (t, cb). invoke cb q) (p\<lparr>timers := rest\<rparr>) (sort_key fst due))"

text \<open>
  A click on an element bubbles: after the listeners of the element itself it reaches
  those of its parent, and so on up to the document and the window. \<open>event_path\<close> is the
  chain of elements from the one clicked to the outermost. A parent that does not come
  before its child in document order is not a parent in any document, and the chain ends
  there.
\<close>

function event_path :: "element list \<Rightarrow> node \<Rightarrow> node list" where
  "event_path d n =
     (if n < length d then
        (case parent (d ! n) of
           Some m \<Rightarrow> if m < n then n # event_path d m else [n]
         | None \<Rightarrow> [n])
      else [n])"
  by pat_completeness auto
termination
  by (relation "measure snd") auto

declare event_path.simps [simp del]

fun propagate :: "target list \<Rightarrow> event_type \<Rightarrow> page \<Rightarrow> page" where
  "propagate [] ty p = p"
| "propagate (t # ts) ty p = propagate ts ty (fire t ty p)"

text \<open>
  What happens to a page: the browser's events, and the passing of \<open>d\<close> milliseconds.
  A scroll event carries the new scroll offset, which the browser stores before the
  handlers run. A click starts with the default action not prevented, runs the listeners
  along its path, and carries the action out afterwards unless a handler prevented it.
  The other events reach the listeners of their own target: the scripts listen for
  ready, load and scroll on the document and the window, and pointer-enter and
  pointer-leave events do not bubble.
\<close>

datatype event =
    DOMContentLoaded
  | Load
  | Scroll real
  | Click node
  | MouseEnter node
  | MouseLeave node
  | Elapse nat

fun dispatch :: "event \<Rightarrow> page \<Rightarrow> page" where
  "dispatch DOMContentLoaded p = fire Document EvDOMContentLoaded p"
| "dispatch Load p = fire Window EvLoad p"
| "dispatch (Scroll y) p = fire Window EvScroll (p\<lparr>scrollY := y\<rparr>)"
| "dispatch (Click n) p =
     (let q = propagate (map Elem (event_path (elements p) n) @ [Document, Window]) EvClick
                (p\<lparr>defaultPrevented := False\<rparr>)
      in if defaultPrevented q then q else q\<lparr>defaultActions := defaultActions q @ [n]\<rparr>)"
| "dispatch (MouseEnter n) p = fire (Elem n) EvMouseEnter p"
| "dispatch (MouseLeave n) p = fire (Elem n) EvMouseLeave p"
| "dispatch (Elapse d) p = run_timers (p\<lparr>now := now p + d\<rparr>)"

fun run :: "event list \<Rightarrow> page \<Rightarrow> page" where
  "run [] p = p"
| "run (e # es) p = run es (dispatch e p)"

text \<open>Loading a script evaluates its top level, which registers the ready handler.\<close>

definition script_js :: "page \<Rightarrow> page" where
  "script_js p = addEventListener Document EvDOMContentLoaded ScriptReady p"

definition main_js :: "page \<Rightarrow> page" where
  "main_js p = addEventListener Document EvDOMContentLoaded MainReady p"

section \<open>Notions used in the statements and proofs\<close>

subsection \<open>Reading a page\<close>

text \<open>
  \<open>has_class\<close> is class membership of an element of the page, \<open>page_of\<close> the page a
  handler leaves behind whether it returned or threw, \<open>toggles_only\<close> the frame of a
  handler that may only switch one class of one element, and \<open>hides\<close> the part of the
  event loop's record that concerns the preloader's timeout callback.
\<close>

definition has_class :: "page \<Rightarrow> node \<Rightarrow> string \<Rightarrow> bool" where
  "has_class p n c \<longleftrightarrow> c \<in> set (classList (elements p ! n))"

fun page_of :: "completion \<Rightarrow> page" where
  "page_of (Normal p) = p"
| "page_of (Throw e p) = p"

definition toggles_only :: "string \<Rightarrow> node option \<Rightarrow> page \<Rightarrow> page \<Rightarrow> bool" where
  \<comment> \<open>\<open>q\<close> differs from \<open>p\<close> at most in whether element \<open>target\<close> carries class \<open>c\<close>.\<close>
  "toggles_only c target p q \<longleftrightarrow>
     q\<lparr>elements := elements p\<rparr> = p \<and>
     length (elements q) = length (elements p) \<and>
     (\<forall>i. target \<noteq> Some i \<longrightarrow> elements q ! i = elements p ! i) \<and>
     (\<forall>i. attrs (elements q ! i) = attrs (elements p ! i) \<and>
          nativeFocus (elements q ! i) = nativeFocus (elements p ! i) \<and>
          parent (elements q ! i) = parent (elements p ! i) \<and>
          hidden (elements q ! i) = hidden (elements p ! i) \<and>
          disabled (elements q ! i) = disabled (elements p ! i) \<and>
          inert (elements q ! i) = inert (elements p ! i) \<and>
          removeAll c (classList (elements q ! i)) = removeAll c (classList (elements p ! i)))"

fun is_scroll :: "event \<Rightarrow> bool" where
  "is_scroll (Scroll y) = True"
| "is_scroll e = False"

fun is_hide :: "callback \<Rightarrow> bool" where
  "is_hide (PreloaderTimeout pl) = True"
| "is_hide cb = False"

definition hides :: "page \<Rightarrow> (nat \<times> callback) list" where
  \<comment> \<open>The runs of the timeout callback so far, each with the time at which it ran.\<close>
  "hides p = filter (\<lambda>x. is_hide (snd x)) (ran p)"

subsection \<open>Example pages\<close>

text \<open>
  Concrete documents for the witnesses and counterexamples. \<open>html_element i cs ti\<close> is a
  rendered top-level element with the id \<open>i\<close>, the classes \<open>cs\<close> and the tabindex \<open>ti\<close>,
  \<open>child_of n e\<close> puts \<open>e\<close> inside element \<open>n\<close>, and \<open>blank d\<close> is the page of document
  \<open>d\<close> before any script has been loaded.
\<close>

definition html_element :: "string option \<Rightarrow> string list \<Rightarrow> string option \<Rightarrow> element" where
  "html_element i cs ti =
     \<lparr>parent = None,
      attrs = (\<lambda>k. if k = ''id'' then i else if k = ''tabindex'' then ti else None),
      classList = cs, nativeFocus = False, hidden = False, disabled = False, inert = False\<rparr>"

definition blank :: "element list \<Rightarrow> page" where
  "blank d =
     \<lparr>elements = d, scrollY = 0, activeElement = None, listeners = [], timers = [], now = 0,
      defaultPrevented = False, scrollToCalls = [], carousels = [], ctorRejectsNull = False,
      uncaught = [], defaultActions = [], ran = []\<rparr>"

definition child_of :: "node \<Rightarrow> element \<Rightarrow> element" where
  "child_of n e = e\<lparr>parent := Some n\<rparr>"

definition nested_controls :: "element list" where
  \<comment> \<open>A logo inside the navigation bar and an icon inside the back-to-top control.\<close>
  "nested_controls =
     [html_element (Some ''mainNavbar'') [] None,
      html_element (Some ''backToTop'') [] None,
      child_of 1 (html_element None [''icon''] None),
      child_of 0 (html_element None [''logo''] None)]"

definition hidden_landmark :: "element list" where
  "hidden_landmark =
     [html_element (Some ''backToTop'') [] None,
      html_element None [''sr-only-focusable''] None,
      (html_element (Some ''main-content'') [] None)\<lparr>hidden := True\<rparr>]"

definition two_controls :: "element list" where
  "two_controls =
     [html_element (Some ''mainNavbar'') [] None, html_element (Some ''backToTop'') [] None]"

definition only_backToTop :: "element list" where
  "only_backToTop = [html_element (Some ''backToTop'') [] None]"

definition only_navbar :: "element list" where
  "only_navbar = [html_element (Some ''mainNavbar'') [] None]"

definition no_landmark :: "element list" where
  "no_landmark =
     [html_element (Some ''backToTop'') [] None,
      html_element None [''sr-only-focusable''] None]"

definition landmark_in_tab_order :: "element list" where
  "landmark_in_tab_order =
     [html_element (Some ''backToTop'') [] None,
      html_element None [''sr-only-focusable''] None,
      html_element (Some ''main-content'') [] (Some ''0'')]"

definition styled_controls :: "element list" where
  "styled_controls =
     [html_element (Some ''mainNavbar'') [''navbar'', ''fixed-top''] None,
      html_element (Some ''backToTop'') [''btn'', ''show''] (Some ''0'')]"

definition carousel_page :: "element list" where
  "carousel_page =
     [html_element (Some ''mainNavbar'') [] None,
      html_element (Some ''carCarousel'') [''carousel'', ''slide''] None]"

definition preloader_page :: "element list" where
  "preloader_page =
     [html_element None [''preloader''] None,
      html_element (Some ''mainNavbar'') [] None,
      html_element (Some ''backToTop'') [] None]"

subsection \<open>What the ready handlers leave behind\<close>

text \<open>
  \<open>registered\<close> is the list of listeners after the ready handler of \<^verbatim>\<open>script.js\<close>, as
  a function of its four lookups (lemma \<open>script_ready_page\<close> below proves that it is);
  registration stops after the second scroll handler when the back-to-top lookup found
  nothing. \<open>wired\<close> and \<open>carousel_wired\<close> are the invariants of the two pages after
  their ready handlers, and \<open>scroll_errors\<close> lists the exceptions one event raises.
\<close>

definition is_elem :: "node option \<Rightarrow> target \<Rightarrow> bool" where
  \<comment> \<open>The target is the element that the lookup found.\<close>
  "is_elem b t \<longleftrightarrow> (case b of Some n \<Rightarrow> t = Elem n | None \<Rightarrow> False)"

definition is_ready :: "callback \<Rightarrow> bool" where
  "is_ready cb \<longleftrightarrow> cb = ScriptReady \<or> cb = MainReady"

definition registered ::
    "node option \<Rightarrow> node option \<Rightarrow> node option \<Rightarrow> node option \<Rightarrow>
     (target \<times> event_type \<times> callback) list" where
  "registered preloader navbar backToTopButton skipLink =
     (Document, EvDOMContentLoaded, ScriptReady) #
     (case preloader of Some pl \<Rightarrow> [(Window, EvLoad, PreloaderLoad pl)] | None \<Rightarrow> []) @
     [(Window, EvScroll, NavbarScroll navbar),
      (Window, EvScroll, BackToTopScroll backToTopButton)] @
     (case backToTopButton of
        None \<Rightarrow> []
      | Some b \<Rightarrow>
          (Elem b, EvClick, BackToTopClick) #
          (case skipLink of Some s \<Rightarrow> [(Elem s, EvClick, SkipLinkClick)] | None \<Rightarrow> []))"

definition wired :: "(target \<times> event_type \<times> callback) list \<Rightarrow> nat \<Rightarrow> page \<Rightarrow> bool" where
  "wired L N p \<longleftrightarrow>
     listeners p = L \<and> length (elements p) = N \<and>
     (\<forall>x \<in> set (timers p). \<exists>pl. snd x = PreloaderTimeout pl)"

definition scroll_errors :: "node option \<Rightarrow> node option \<Rightarrow> event \<Rightarrow> error list" where
  "scroll_errors nav b e =
     (case e of
        Scroll y \<Rightarrow> (if nav = None then [TypeError] else []) @ (if b = None then [TypeError] else [])
      | _ \<Rightarrow> [])"

definition carousel_wired :: "node \<Rightarrow> nat \<Rightarrow> page \<Rightarrow> bool" where
  "carousel_wired c w p \<longleftrightarrow>
     listeners p =
       [(Document, EvDOMContentLoaded, MainReady),
        (Elem c, EvMouseEnter, CarouselMouseEnter w),
        (Elem c, EvMouseLeave, CarouselMouseLeave w)] \<and>
     timers p = [] \<and> w < length (carousels p) \<and>
     boundTo (carousels p ! w) = Some c \<and>
     config (carousels p ! w) = \<lparr>cfg_interval = 5000, cfg_wrap = True, cfg_keyboard = True\<rparr>"

subsection \<open>The stages of the preloader\<close>

text \<open>
  Before the load event no timer is set (\<open>idle\<close>); the load event at time \<open>T\<close> sets one
  timer, due at \<open>T + 500\<close> (\<open>armed\<close>); when it has run, the preloader is hidden and the
  record shows one run, at a time from \<open>T + 500\<close> on (\<open>fired\<close>).
\<close>

definition preloader_view ::
    "page \<Rightarrow> (nat \<times> callback) list \<times> nat \<times> (nat \<times> callback) list \<times> (node \<Rightarrow> bool)" where
  "preloader_view p = (timers p, now p, hides p, (\<lambda>i. has_class p i ''hidden''))"

definition idle :: "(node \<Rightarrow> bool) \<Rightarrow> page \<Rightarrow> bool" where
  "idle H p \<longleftrightarrow> timers p = [] \<and> hides p = [] \<and> (\<lambda>i. has_class p i ''hidden'') = H"

definition armed :: "nat \<Rightarrow> node \<Rightarrow> bool \<Rightarrow> page \<Rightarrow> bool" where
  "armed T pl h p \<longleftrightarrow>
     timers p = [(T + 500, PreloaderTimeout pl)] \<and> now p < T + 500 \<and> hides p = [] \<and>
     has_class p pl ''hidden'' = h"

definition fired :: "nat \<Rightarrow> node \<Rightarrow> page \<Rightarrow> bool" where
  "fired T pl p \<longleftrightarrow>
     timers p = [] \<and> has_class p pl ''hidden'' \<and>
     (\<exists>t. hides p = [(t, PreloaderTimeout pl)] \<and> T + 500 \<le> t \<and> t \<le> now p)"

section \<open>Basic facts\<close>

lemmas op_defs = classList_add_def classList_remove_def update_element_def setAttribute_def
  focus_def addEventListener_def setTimeout_def preventDefault_def scrollTo_def carousel_call_def
  add_token_def remove_token_def

lemmas handler_defs = preloader_load_def preloader_timeout_def navbar_scroll_def
  backToTop_scroll_def backToTop_click_def skipLink_click_def carousel_mouseenter_def
  carousel_mouseleave_def

lemma first_index_bound: "first_index P xs = Some n \<Longrightarrow> n < length xs \<and> P (xs ! n)"
proof (induction xs arbitrary: n)
  case Nil
  then show ?case by simp
next
  case (Cons x xs)
  then show ?case by (cases "P x") (auto split: if_splits)
qed

lemma first_index_None: "first_index P xs = None \<longleftrightarrow> (\<forall>x \<in> set xs. \<not> P x)"
  by (induction xs) auto

lemma script_ready_page:
  assumes "listeners p0 = []"
  shows "dispatch DOMContentLoaded (script_js p0) =
     p0\<lparr>listeners :=
          registered (querySelector_class (elements p0) ''preloader'')
            (getElementById (elements p0) ''mainNavbar'')
            (getElementById (elements p0) ''backToTop'')
            (querySelector_class (elements p0) ''sr-only-focusable''),
        uncaught := uncaught p0 @
          (case getElementById (elements p0) ''backToTop'' of None \<Rightarrow> [TypeError] | Some b \<Rightarrow> []),
        ran := ran p0 @ [(now p0, ScriptReady)]\<rparr>"
  using assms
  by (simp add: script_js_def fire_def invoke_def script_ready_def addEventListener_def
      registered_def Let_def split: option.splits)

lemma deliver_registered_scroll:
  "deliver (registered pre nav b s) Window EvScroll p =
     invoke (BackToTopScroll b) (invoke (NavbarScroll nav) p)"
  by (simp add: registered_def split: option.splits)

lemma deliver_registered_load:
  "deliver (registered pre nav b s) Window EvLoad p =
     (case pre of Some pl \<Rightarrow> invoke (PreloaderLoad pl) p | None \<Rightarrow> p)"
  by (simp add: registered_def split: option.splits)

lemma deliver_registered_click:
  "deliver (registered pre nav b s) t EvClick p =
     (let q = (if is_elem b t then invoke BackToTopClick p else p)
      in if b \<noteq> None \<and> is_elem s t then invoke SkipLinkClick q else q)"
  by (auto simp: registered_def is_elem_def split: option.splits)

lemma event_path_shape: "\<exists>ms. event_path d n = n # ms \<and> (\<forall>m \<in> set ms. m < n)"
proof (induction d n rule: event_path.induct)
  case (1 d n)
  show ?case
  proof (cases "n < length d")
    case False
    then show ?thesis by (subst event_path.simps) simp
  next
    case True
    show ?thesis
    proof (cases "parent (d ! n)")
      case None
      with True show ?thesis by (subst event_path.simps) simp
    next
      case (Some m)
      show ?thesis
      proof (cases "m < n")
        case False
        with True Some show ?thesis by (subst event_path.simps) simp
      next
        case less: True
        from "1.IH" [OF True Some less] obtain ms where
          ms: "event_path d m = m # ms" "\<forall>k \<in> set ms. k < m" by blast
        have "event_path d n = n # m # ms"
          using True Some less ms(1) by (subst event_path.simps) simp
        moreover have "\<forall>k \<in> set (m # ms). k < n" using less ms(2) by auto
        ultimately show ?thesis by blast
      qed
    qed
  qed
qed

lemma deliver_registered_mouse:
  "deliver (registered pre nav b s) t EvMouseEnter p = p"
  "deliver (registered pre nav b s) t EvMouseLeave p = p"
  by (simp_all add: registered_def split: option.splits)

lemma invoke_wired:
  assumes "\<not> is_ready cb" and "wired L N p"
  shows "wired L N (invoke cb p)"
  using assms
  by (cases cb)
     (auto simp: is_ready_def wired_def invoke_def handler_defs op_defs Let_def
           split: option.splits)

lemma invoke_uncaught:
  assumes "\<not> is_ready cb"
  shows "uncaught (invoke cb p) =
     uncaught p @ (if cb = NavbarScroll None \<or> cb = BackToTopScroll None then [TypeError] else [])"
  using assms
  by (cases cb)
     (auto simp: is_ready_def invoke_def handler_defs op_defs Let_def split: option.splits)

lemma fire_click:
  assumes "wired (registered pre nav b s) N p"
  shows "fire t EvClick p =
     (let q = (if is_elem b t then invoke BackToTopClick p else p)
      in if b \<noteq> None \<and> is_elem s t then invoke SkipLinkClick q else q)"
  using assms by (simp add: fire_def wired_def deliver_registered_click)

lemma propagate_invariant:
  assumes "\<And>t q. P q \<Longrightarrow> P (fire t ty q)" and "P p"
  shows "P (propagate ts ty p)"
  using assms(2)
proof (induction ts arbitrary: p)
  case Nil
  then show ?case by simp
next
  case (Cons t ts)
  from Cons.prems have "P (fire t ty p)" by (rule assms(1))
  then have "P (propagate ts ty (fire t ty p))" by (rule Cons.IH)
  then show ?case by simp
qed

lemma fire_click_keeps_wired:
  assumes "wired (registered pre nav b s) N p"
  shows "wired (registered pre nav b s) N (fire t EvClick p)"
proof -
  have choice: "wired L N (if c then x else y)" if "wired L N x" and "wired L N y"
    for L c x y using that by simp
  have top: "wired (registered pre nav b s) N (invoke BackToTopClick q)"
    if "wired (registered pre nav b s) N q" for q
    using _ that by (rule invoke_wired) (simp add: is_ready_def)
  have skip: "wired (registered pre nav b s) N (invoke SkipLinkClick q)"
    if "wired (registered pre nav b s) N q" for q
    using _ that by (rule invoke_wired) (simp add: is_ready_def)
  show ?thesis
    unfolding fire_click [OF assms] Let_def
    by (intro choice skip top assms)
qed

lemma fire_click_uncaught:
  assumes "wired (registered pre nav b s) N p"
  shows "uncaught (fire t EvClick p) = uncaught p"
  unfolding fire_click [OF assms] Let_def by (simp add: invoke_uncaught is_ready_def)

lemma propagate_click_wired:
  assumes "wired (registered pre nav b s) N p"
  shows "wired (registered pre nav b s) N (propagate ts EvClick p)"
  using fire_click_keeps_wired assms by (rule propagate_invariant)

lemma foldl_timeouts:
  assumes "\<forall>x \<in> set ts. \<exists>pl. snd x = PreloaderTimeout pl"
    and "\<And>pl q. P q \<Longrightarrow> P (invoke (PreloaderTimeout pl) q)"
    and "P p"
  shows "P (foldl (\<lambda>q (t, cb). invoke cb q) p ts)"
  using assms
proof (induction ts arbitrary: p)
  case Nil
  then show ?case by simp
next
  case (Cons x ts)
  obtain t cb where x: "x = (t, cb)" by (cases x)
  from Cons.prems(1) x obtain pl where cb: "cb = PreloaderTimeout pl" by auto
  have "P (invoke cb p)" using Cons.prems(2,3) cb by simp
  moreover have "\<forall>y \<in> set ts. \<exists>pl. snd y = PreloaderTimeout pl" using Cons.prems(1) by simp
  ultimately have "P (foldl (\<lambda>q (t, cb). invoke cb q) (invoke cb p) ts)"
    using Cons.IH Cons.prems(2) by blast
  then show ?case by (simp add: x)
qed

lemma run_timers_timeouts:
  assumes "\<forall>x \<in> set (timers p). \<exists>pl. snd x = PreloaderTimeout pl"
    and "\<And>pl q. P q \<Longrightarrow> P (invoke (PreloaderTimeout pl) q)"
    and "P (p\<lparr>timers := filter (\<lambda>(t, cb). \<not> t \<le> now p) (timers p)\<rparr>)"
  shows "P (run_timers p)"
  unfolding run_timers_def Let_def
  by (rule foldl_timeouts) (use assms in auto)

lemma dispatch_wired:
  assumes "L = registered pre nav b s" and "e \<noteq> DOMContentLoaded" and "wired L N p"
  shows "wired L N (dispatch e p)"
proof (cases e)
  case DOMContentLoaded
  with assms(2) show ?thesis by simp
next
  case Load
  have "wired L N (case pre of Some pl \<Rightarrow> invoke (PreloaderLoad pl) p | None \<Rightarrow> p)"
    using assms(3) by (auto split: option.splits intro: invoke_wired simp: is_ready_def)
  with Load assms(1,3) show ?thesis
    by (simp add: fire_def wired_def deliver_registered_load)
next
  case (Scroll y)
  have "wired L N (p\<lparr>scrollY := y\<rparr>)" using assms(3) by (simp add: wired_def)
  then have "wired L N (invoke (BackToTopScroll b) (invoke (NavbarScroll nav) (p\<lparr>scrollY := y\<rparr>)))"
    by (intro invoke_wired) (simp_all add: is_ready_def)
  with Scroll assms(1,3) show ?thesis
    by (simp add: fire_def wired_def deliver_registered_scroll)
next
  case (Click n)
  let ?p = "p\<lparr>defaultPrevented := False\<rparr>"
  have w: "wired L N ?p" using assms(3) by (simp add: wired_def)
  have "wired L N (propagate ts EvClick ?p)" for ts
    using w unfolding assms(1) by (rule propagate_click_wired)
  then show ?thesis using Click
    by (simp add: Let_def wired_def)
next
  case (MouseEnter n)
  with assms(1,3) show ?thesis by (simp add: fire_def wired_def deliver_registered_mouse)
next
  case (MouseLeave n)
  with assms(1,3) show ?thesis by (simp add: fire_def wired_def deliver_registered_mouse)
next
  case (Elapse d)
  have "wired L N (run_timers (p\<lparr>now := now p + d\<rparr>))"
  proof (rule run_timers_timeouts)
    show "\<forall>x \<in> set (timers (p\<lparr>now := now p + d\<rparr>)). \<exists>pl. snd x = PreloaderTimeout pl"
      using assms(3) by (simp add: wired_def)
    show "\<And>pl q. wired L N q \<Longrightarrow> wired L N (invoke (PreloaderTimeout pl) q)"
      by (rule invoke_wired) (simp_all add: is_ready_def)
    show "wired L N (p\<lparr>now := now p + d\<rparr>
        \<lparr>timers := filter (\<lambda>(t, cb). \<not> t \<le> now (p\<lparr>now := now p + d\<rparr>))
                     (timers (p\<lparr>now := now p + d\<rparr>))\<rparr>)"
      using assms(3) by (auto simp: wired_def)
  qed
  with Elapse show ?thesis by simp
qed

lemma run_wired:
  assumes "L = registered pre nav b s" and "DOMContentLoaded \<notin> set es" and "wired L N p"
  shows "wired L N (run es p)"
  using assms(2,3)
proof (induction es arbitrary: p)
  case Nil
  then show ?case by simp
next
  case (Cons e es)
  then have "wired L N (dispatch e p)" using assms(1) by (auto intro: dispatch_wired)
  with Cons show ?case by simp
qed

lemma run_append: "run (es @ fs) p = run fs (run es p)"
  by (induction es arbitrary: p) simp_all

lemma invoke_length:
  assumes "\<not> is_ready cb"
  shows "length (elements (invoke cb p)) = length (elements p)"
  using assms
  by (cases cb)
     (auto simp: is_ready_def invoke_def handler_defs op_defs Let_def split: option.splits)

lemma invoke_scrollY:
  assumes "\<not> is_ready cb"
  shows "scrollY (invoke cb p) = scrollY p"
  using assms
  by (cases cb)
     (auto simp: is_ready_def invoke_def handler_defs op_defs Let_def split: option.splits)

lemma nth_list_update_total:
  "(xs[n := v]) ! i = (if i = n \<and> n < length xs then v else xs ! i)"
  by (cases "n < length xs") (auto simp: list_update_beyond)

lemma has_class_navbar:
  "has_class (invoke (NavbarScroll nav) p) i c \<longleftrightarrow>
     (if nav = Some i \<and> i < length (elements p) \<and> c = ''navbar-scrolled''
      then scrollY p > 50 else has_class p i c)"
  by (cases nav)
     (auto simp: has_class_def invoke_def navbar_scroll_def op_defs nth_list_update_total)

lemma has_class_backToTop:
  "has_class (invoke (BackToTopScroll b) p) i c \<longleftrightarrow>
     (if b = Some i \<and> i < length (elements p) \<and> c = ''show''
      then scrollY p > 300 else has_class p i c)"
  by (cases b)
     (auto simp: has_class_def invoke_def backToTop_scroll_def op_defs nth_list_update_total)

lemma has_class_timeout:
  "has_class (invoke (PreloaderTimeout pl) p) i c \<longleftrightarrow>
     (i = pl \<and> i < length (elements p) \<and> c = ''hidden'') \<or> has_class p i c"
  by (auto simp: has_class_def invoke_def preloader_timeout_def op_defs nth_list_update_total)

lemma has_class_other:
  assumes "cb = PreloaderLoad pl \<or> cb = BackToTopClick \<or> cb = SkipLinkClick"
  shows "has_class (invoke cb p) i c \<longleftrightarrow> has_class p i c"
  using assms
  by (auto simp: has_class_def invoke_def handler_defs op_defs Let_def nth_list_update_total
           split: option.splits if_splits)

lemma dispatch_uncaught:
  assumes "wired (registered pre nav b s) N p" and "e \<noteq> DOMContentLoaded"
  shows "uncaught (dispatch e p) = uncaught p @ scroll_errors nav b e"
proof (cases e)
  case DOMContentLoaded
  with assms(2) show ?thesis by simp
next
  case Load
  with assms(1) show ?thesis
    by (simp add: fire_def wired_def deliver_registered_load scroll_errors_def
        invoke_uncaught is_ready_def split: option.splits)
next
  case (Scroll y)
  with assms(1) show ?thesis
    by (simp add: fire_def wired_def deliver_registered_scroll scroll_errors_def
        invoke_uncaught is_ready_def)
next
  case (Click n)
  let ?L = "registered pre nav b s"
  let ?p = "p\<lparr>defaultPrevented := False\<rparr>"
  let ?P = "\<lambda>q. wired ?L N q \<and> uncaught q = uncaught p"
  have w: "?P ?p" using assms(1) by (simp add: wired_def)
  have step: "?P (fire t EvClick q)" if "?P q" for t q
    using that fire_click_keeps_wired [of pre nav b s N q t]
      fire_click_uncaught [of pre nav b s N q t] by simp
  have "?P (propagate ts EvClick ?p)" for ts
    using step w by (rule propagate_invariant)
  then show ?thesis using Click
    by (simp add: Let_def scroll_errors_def)
next
  case (MouseEnter n)
  with assms(1) show ?thesis
    by (simp add: fire_def wired_def deliver_registered_mouse scroll_errors_def)
next
  case (MouseLeave n)
  with assms(1) show ?thesis
    by (simp add: fire_def wired_def deliver_registered_mouse scroll_errors_def)
next
  case (Elapse d)
  have "uncaught (run_timers (p\<lparr>now := now p + d\<rparr>)) = uncaught p"
  proof (rule run_timers_timeouts)
    show "\<forall>x \<in> set (timers (p\<lparr>now := now p + d\<rparr>)). \<exists>pl. snd x = PreloaderTimeout pl"
      using assms(1) by (simp add: wired_def)
    show "\<And>pl q. uncaught q = uncaught p \<Longrightarrow>
            uncaught (invoke (PreloaderTimeout pl) q) = uncaught p"
      by (simp add: invoke_uncaught is_ready_def)
    show "uncaught (p\<lparr>now := now p + d\<rparr>
        \<lparr>timers := filter (\<lambda>(t, cb). \<not> t \<le> now (p\<lparr>now := now p + d\<rparr>))
                     (timers (p\<lparr>now := now p + d\<rparr>))\<rparr>) = uncaught p"
      by simp
  qed
  with Elapse show ?thesis by (simp add: scroll_errors_def)
qed

lemma run_uncaught:
  assumes "DOMContentLoaded \<notin> set es" and "wired (registered pre nav b s) N p"
  shows "uncaught (run es p) = uncaught p @ concat (map (scroll_errors nav b) es)"
  using assms
proof (induction es arbitrary: p)
  case Nil
  then show ?case by simp
next
  case (Cons e es)
  have w: "wired (registered pre nav b s) N (dispatch e p)"
    using Cons.prems by (auto intro: dispatch_wired)
  have "uncaught (dispatch e p) = uncaught p @ scroll_errors nav b e"
    using Cons.prems by (auto intro: dispatch_uncaught)
  with Cons.IH [OF _ w] Cons.prems(1) show ?case by simp
qed

lemma script_ready_wired:
  assumes "listeners p0 = []" and "timers p0 = []"
  shows "wired (registered (querySelector_class (elements p0) ''preloader'')
            (getElementById (elements p0) ''mainNavbar'')
            (getElementById (elements p0) ''backToTop'')
            (querySelector_class (elements p0) ''sr-only-focusable''))
          (length (elements p0)) (dispatch DOMContentLoaded (script_js p0))"
  using assms(2) by (simp add: script_ready_page [OF assms(1)] wired_def del: dispatch.simps)

lemma getElementById_bound:
  "getElementById d i = Some n \<Longrightarrow> n < length d"
  by (auto simp: getElementById_def dest: first_index_bound)

lemma querySelector_class_bound:
  "querySelector_class d c = Some n \<Longrightarrow> n < length d"
  by (auto simp: querySelector_class_def dest: first_index_bound)

lemma scroll_errors_not_scroll: "\<not> is_scroll e \<Longrightarrow> scroll_errors nav b e = []"
  by (cases e) (simp_all add: scroll_errors_def)

lemma concat_scroll_errors:
  "\<forall>e \<in> set es. \<not> is_scroll e \<Longrightarrow> concat (map (scroll_errors nav b) es) = []"
  by (induction es) (simp_all add: scroll_errors_not_scroll)

lemma concat_scroll_errors_present:
  "concat (map (scroll_errors (Some n) (Some b)) es) = []"
  by (induction es) (simp_all add: scroll_errors_def split: event.splits)

lemma invoke_BackToTopClick:
  "invoke BackToTopClick p =
     p\<lparr>ran := ran p @ [(now p, BackToTopClick)], defaultPrevented := True,
       scrollToCalls := scrollToCalls p @ [\<lparr>sc_top = 0, sc_smooth = True\<rparr>]\<rparr>"
  by (simp add: invoke_def backToTop_click_def scrollTo_def preventDefault_def)

lemma invoke_SkipLinkClick_frame:
  "defaultPrevented (invoke SkipLinkClick p)"
  "defaultActions (invoke SkipLinkClick p) = defaultActions p"
  "scrollToCalls (invoke SkipLinkClick p) = scrollToCalls p"
  by (simp_all add: invoke_def skipLink_click_def op_defs Let_def split: option.splits)

lemma parses_minus_one: "parses_integer ''-1''"
  by (simp add: parses_integer_def is_space_def is_digit_def)

lemma invoke_SkipLinkClick_Some:
  assumes "getElementById (elements p) ''main-content'' = Some m"
  shows "attrs (elements (invoke SkipLinkClick p) ! m) ''tabindex'' = Some ''-1''"
    and "activeElement (invoke SkipLinkClick p) =
      (if hidden (elements p ! m) \<or> disabled (elements p ! m) \<or> inert (elements p ! m)
       then activeElement p else Some m)"
  using assms getElementById_bound [OF assms]
  by (simp_all add: invoke_def skipLink_click_def op_defs Let_def focusable_def
      parses_minus_one)

lemma invoke_SkipLinkClick_None:
  assumes "getElementById (elements p) ''main-content'' = None"
  shows "activeElement (invoke SkipLinkClick p) = activeElement p"
    and "elements (invoke SkipLinkClick p) = elements p"
  using assms by (simp_all add: invoke_def skipLink_click_def op_defs Let_def)

lemma fire_click_frame:
  assumes "wired (registered pre nav b s) N p"
  shows "defaultActions (fire t EvClick p) = defaultActions p"
    and "scrollY (fire t EvClick p) = scrollY p"
    and "defaultPrevented p \<Longrightarrow> defaultPrevented (fire t EvClick p)"
    and "\<not> is_elem b t \<Longrightarrow> scrollToCalls (fire t EvClick p) = scrollToCalls p"
    and "\<not> is_elem s t \<Longrightarrow>
           elements (fire t EvClick p) = elements p \<and>
           activeElement (fire t EvClick p) = activeElement p"
    and "\<not> is_elem b t \<Longrightarrow> b = None \<or> \<not> is_elem s t \<Longrightarrow> fire t EvClick p = p"
  by (auto simp: fire_click [OF assms] Let_def invoke_BackToTopClick
      invoke_SkipLinkClick_frame invoke_scrollY is_ready_def)

lemma propagate_click_frame:
  assumes "wired (registered pre nav b s) N p"
  shows "defaultActions (propagate ts EvClick p) = defaultActions p"
    and "scrollY (propagate ts EvClick p) = scrollY p"
    and "defaultPrevented p \<Longrightarrow> defaultPrevented (propagate ts EvClick p)"
proof -
  let ?L = "registered pre nav b s"
  let ?P = "\<lambda>q. wired ?L N q \<and> defaultActions q = defaultActions p \<and> scrollY q = scrollY p \<and>
      (defaultPrevented p \<longrightarrow> defaultPrevented q)"
  have step: "?P (fire t EvClick q)" if "?P q" for t q
    using that fire_click_keeps_wired [of pre nav b s N q t]
      fire_click_frame(1,2,3) [of pre nav b s N q t] by simp
  have "?P p" using assms by simp
  with step have "?P (propagate ts EvClick p)" by (rule propagate_invariant)
  then show "defaultActions (propagate ts EvClick p) = defaultActions p"
    and "scrollY (propagate ts EvClick p) = scrollY p"
    and "defaultPrevented p \<Longrightarrow> defaultPrevented (propagate ts EvClick p)"
    by simp_all
qed

lemma propagate_click_off_backToTop:
  assumes "wired (registered pre nav b s) N p" and "\<forall>t \<in> set ts. \<not> is_elem b t"
  shows "scrollToCalls (propagate ts EvClick p) = scrollToCalls p"
  using assms
proof (induction ts arbitrary: p)
  case Nil
  then show ?case by simp
next
  case (Cons t ts)
  from Cons.prems(2) have t: "\<not> is_elem b t" and ts: "\<forall>t \<in> set ts. \<not> is_elem b t"
    by simp_all
  have "scrollToCalls (propagate ts EvClick (fire t EvClick p)) =
      scrollToCalls (fire t EvClick p)"
    using fire_click_keeps_wired [OF Cons.prems(1)] ts by (rule Cons.IH)
  with fire_click_frame(4) [OF Cons.prems(1) t] show ?case by simp
qed

lemma propagate_click_off_skipLink:
  assumes "wired (registered pre nav b s) N p" and "\<forall>t \<in> set ts. \<not> is_elem s t"
  shows "elements (propagate ts EvClick p) = elements p \<and>
     activeElement (propagate ts EvClick p) = activeElement p"
  using assms
proof (induction ts arbitrary: p)
  case Nil
  then show ?case by simp
next
  case (Cons t ts)
  from Cons.prems(2) have t: "\<not> is_elem s t" and ts: "\<forall>t \<in> set ts. \<not> is_elem s t"
    by simp_all
  have "elements (propagate ts EvClick (fire t EvClick p)) = elements (fire t EvClick p) \<and>
      activeElement (propagate ts EvClick (fire t EvClick p)) =
      activeElement (fire t EvClick p)"
    using fire_click_keeps_wired [OF Cons.prems(1)] ts by (rule Cons.IH)
  with fire_click_frame(5) [OF Cons.prems(1) t] show ?case by simp
qed

lemma propagate_click_off_both:
  assumes "wired (registered pre nav b s) N p" and "\<forall>t \<in> set ts. \<not> is_elem b t"
    and "b = None \<or> (\<forall>t \<in> set ts. \<not> is_elem s t)"
  shows "propagate ts EvClick p = p"
  using assms
proof (induction ts arbitrary: p)
  case Nil
  then show ?case by simp
next
  case (Cons t ts)
  from Cons.prems(2) have t: "\<not> is_elem b t" and ts: "\<forall>t \<in> set ts. \<not> is_elem b t"
    by simp_all
  from Cons.prems(3) have t': "b = None \<or> \<not> is_elem s t"
    and ts': "b = None \<or> (\<forall>t \<in> set ts. \<not> is_elem s t)" by auto
  have "fire t EvClick p = p" using Cons.prems(1) t t' by (rule fire_click_frame(6))
  moreover have "propagate ts EvClick p = p" using Cons.prems(1) ts ts' by (rule Cons.IH)
  ultimately show ?case by simp
qed

lemma click_targets:
  "\<exists>ts. map Elem (event_path d n) @ [Document, Window] = Elem n # ts \<and> Elem n \<notin> set ts"
proof -
  obtain ms where ms: "event_path d n = n # ms" "\<forall>m \<in> set ms. m < n"
    using event_path_shape by blast
  have "Elem n \<notin> set (map Elem ms @ [Document, Window])" using ms(2) by auto
  with ms(1) show ?thesis by simp
qed

lemma script_run_wired:
  assumes "listeners p0 = []" and "timers p0 = []" and "DOMContentLoaded \<notin> set es"
  shows "wired (registered (querySelector_class (elements p0) ''preloader'')
            (getElementById (elements p0) ''mainNavbar'')
            (getElementById (elements p0) ''backToTop'')
            (querySelector_class (elements p0) ''sr-only-focusable''))
          (length (elements p0)) (run (DOMContentLoaded # es) (script_js p0))"
  using script_ready_wired [OF assms(1,2)] assms(3) by (auto intro: run_wired)

lemma script_run_uncaught:
  assumes "listeners p0 = []" and "timers p0 = []" and "DOMContentLoaded \<notin> set es"
    and "getElementById (elements p0) ''backToTop'' = Some b"
  shows "uncaught (run (DOMContentLoaded # es) (script_js p0)) =
     uncaught p0 @
     concat (map (scroll_errors (getElementById (elements p0) ''mainNavbar'') (Some b)) es)"
proof -
  have "uncaught (dispatch DOMContentLoaded (script_js p0)) = uncaught p0"
    using assms(4) by (simp add: script_ready_page [OF assms(1)] del: dispatch.simps)
  moreover have "uncaught (run es (dispatch DOMContentLoaded (script_js p0))) =
     uncaught (dispatch DOMContentLoaded (script_js p0)) @
     concat (map (scroll_errors (getElementById (elements p0) ''mainNavbar'') (Some b)) es)"
    using script_ready_wired [OF assms(1,2)] assms(3,4) by (auto intro: run_uncaught)
  ultimately show ?thesis by simp
qed

lemma toggle_frame:
  assumes "f = add_token c \<or> f = remove_token c"
  shows "toggles_only c (Some n) p (update_element n f p)"
  using assms
  by (auto simp: toggles_only_def update_element_def add_token_def remove_token_def
      nth_list_update_total)

lemma toggle_twice:
  assumes "f = add_token c \<or> f = remove_token c"
  shows "update_element n f (update_element n f p) = update_element n f p"
proof (cases "n < length (elements p)")
  case True
  have "f (f e) = f e" for e
    using assms by (auto simp: add_token_def remove_token_def)
  with True show ?thesis by (simp add: update_element_def)
next
  case False
  then show ?thesis by (simp add: update_element_def list_update_beyond)
qed

lemmas toggle_again = toggle_twice [OF disjI1 [OF refl]] toggle_twice [OF disjI2 [OF refl]]

lemma toggles_only_refl: "toggles_only c t p p"
  by (simp add: toggles_only_def)

lemma navbar_scroll_toggles:
  "toggles_only ''navbar-scrolled'' navbar p (page_of (navbar_scroll navbar p))"
  by (cases navbar)
     (simp_all add: navbar_scroll_def classList_add_def classList_remove_def toggle_frame
        toggles_only_refl)

lemma backToTop_scroll_toggles:
  "toggles_only ''show'' b p (page_of (backToTop_scroll b p))"
  by (cases b)
     (simp_all add: backToTop_scroll_def classList_add_def classList_remove_def toggle_frame
        toggles_only_refl)

lemma update_element_scrollY: "scrollY (update_element n f p) = scrollY p"
  by (simp add: update_element_def)

lemma navbar_scroll_twice:
  "navbar_scroll navbar (page_of (navbar_scroll navbar p)) = navbar_scroll navbar p"
  by (cases navbar)
     (simp_all add: navbar_scroll_def classList_add_def classList_remove_def toggle_again
        update_element_scrollY)

lemma backToTop_scroll_twice:
  "backToTop_scroll b (page_of (backToTop_scroll b p)) = backToTop_scroll b p"
  by (cases b)
     (simp_all add: backToTop_scroll_def classList_add_def classList_remove_def toggle_again
        update_element_scrollY)

lemma main_ready_page:
  assumes "listeners p0 = []" and "getElementById (elements p0) ''carCarousel'' = Some c"
  shows "dispatch DOMContentLoaded (main_js p0) =
     p0\<lparr>listeners :=
          [(Document, EvDOMContentLoaded, MainReady),
           (Elem c, EvMouseEnter, CarouselMouseEnter (length (carousels p0))),
           (Elem c, EvMouseLeave, CarouselMouseLeave (length (carousels p0)))],
        carousels := carousels p0 @
          [\<lparr>boundTo = Some c,
            config = \<lparr>cfg_interval = 5000, cfg_wrap = True, cfg_keyboard = True\<rparr>,
            calls = []\<rparr>],
        ran := ran p0 @ [(now p0, MainReady)]\<rparr>"
  using assms
  by (simp add: main_js_def fire_def invoke_def main_ready_def new_Carousel_def
      addEventListener_def)

lemma invoke_carousel_call:
  "invoke (CarouselMouseEnter w) p =
     carousel_call w Pause (p\<lparr>ran := ran p @ [(now p, CarouselMouseEnter w)]\<rparr>)"
  "invoke (CarouselMouseLeave w) p =
     carousel_call w Cycle (p\<lparr>ran := ran p @ [(now p, CarouselMouseLeave w)]\<rparr>)"
  by (simp_all add: invoke_def carousel_mouseenter_def carousel_mouseleave_def)

lemma carousel_call_wired:
  assumes "carousel_wired c w p"
  shows "carousel_wired c w (carousel_call w' k (p\<lparr>ran := r\<rparr>))"
  using assms
  by (auto simp: carousel_wired_def carousel_call_def nth_list_update_total)

lemma carousel_call_calls:
  assumes "w < length (carousels p)"
  shows "calls (carousels (carousel_call w k p) ! w) = calls (carousels p ! w) @ [k]"
  using assms by (simp add: carousel_call_def)

lemma dispatch_mouse_carousel:
  assumes "carousel_wired c w p"
  shows "dispatch (MouseEnter c) p = invoke (CarouselMouseEnter w) p"
    and "dispatch (MouseLeave c) p = invoke (CarouselMouseLeave w) p"
  using assms by (simp_all add: carousel_wired_def fire_def)

lemma dispatch_carousel_wired:
  assumes "e \<noteq> DOMContentLoaded" and "carousel_wired c w p"
  shows "carousel_wired c w (dispatch e p)"
proof (cases e)
  case DOMContentLoaded
  with assms(1) show ?thesis by simp
next
  case Load
  with assms(2) show ?thesis by (simp add: carousel_wired_def fire_def)
next
  case (Scroll y)
  with assms(2) show ?thesis by (simp add: carousel_wired_def fire_def)
next
  case (Click n)
  let ?p = "p\<lparr>defaultPrevented := False\<rparr>"
  have w: "carousel_wired c w ?p" using assms(2) by (simp add: carousel_wired_def)
  have step: "carousel_wired c w (fire t EvClick q)" if "carousel_wired c w q" for t q
    using that by (simp add: carousel_wired_def fire_def)
  have "carousel_wired c w (propagate ts EvClick ?p)" for ts
    using step w by (rule propagate_invariant)
  then show ?thesis using Click
    by (simp add: Let_def carousel_wired_def)
next
  case (MouseEnter n)
  have "fire (Elem n) EvMouseEnter p =
      (if n = c then invoke (CarouselMouseEnter w) p else p)"
    using assms(2) by (simp add: carousel_wired_def fire_def)
  with MouseEnter assms(2) show ?thesis
    by (simp add: invoke_carousel_call carousel_call_wired)
next
  case (MouseLeave n)
  have "fire (Elem n) EvMouseLeave p =
      (if n = c then invoke (CarouselMouseLeave w) p else p)"
    using assms(2) by (simp add: carousel_wired_def fire_def)
  with MouseLeave assms(2) show ?thesis
    by (simp add: invoke_carousel_call carousel_call_wired)
next
  case (Elapse d)
  with assms(2) show ?thesis by (simp add: carousel_wired_def run_timers_def)
qed

lemma run_carousel_wired:
  assumes "DOMContentLoaded \<notin> set es" and "carousel_wired c w p"
  shows "carousel_wired c w (run es p)"
  using assms
proof (induction es arbitrary: p)
  case Nil
  then show ?case by simp
next
  case (Cons e es)
  then have "carousel_wired c w (dispatch e p)" by (auto intro: dispatch_carousel_wired)
  with Cons show ?case by simp
qed

lemma view_cong:
  assumes "preloader_view q = preloader_view p"
  shows "idle H q = idle H p" and "armed T pl h q = armed T pl h p"
    and "fired T pl q = fired T pl p"
proof -
  from assms have eq: "timers q = timers p" "now q = now p" "hides q = hides p"
    "(\<lambda>i. has_class q i ''hidden'') = (\<lambda>i. has_class p i ''hidden'')"
    by (simp_all add: preloader_view_def)
  from eq(4) have "has_class q pl ''hidden'' = has_class p pl ''hidden''"
    by (rule fun_cong)
  with eq show "idle H q = idle H p" and "armed T pl h q = armed T pl h p"
    and "fired T pl q = fired T pl p"
    by (simp_all add: idle_def armed_def fired_def)
qed

lemma invoke_ran: "ran (invoke cb p) = ran p @ [(now p, cb)]"
  by (cases cb)
     (auto simp: invoke_def handler_defs op_defs Let_def script_ready_def main_ready_def
        new_Carousel_def split: option.splits sum.splits)

lemma invoke_now: "\<not> is_ready cb \<Longrightarrow> now (invoke cb p) = now p"
  by (cases cb)
     (auto simp: is_ready_def invoke_def handler_defs op_defs Let_def split: option.splits)

lemma invoke_timers:
  assumes "\<not> is_ready cb" and "\<forall>pl. cb \<noteq> PreloaderLoad pl"
  shows "timers (invoke cb p) = timers p"
  using assms
  by (cases cb)
     (auto simp: is_ready_def invoke_def handler_defs op_defs Let_def split: option.splits)

lemma view_invoke:
  assumes "cb = NavbarScroll nav \<or> cb = BackToTopScroll b \<or> cb = BackToTopClick \<or>
           cb = SkipLinkClick"
  shows "preloader_view (invoke cb p) = preloader_view p"
proof -
  have r: "\<not> is_ready cb" "\<forall>pl. cb \<noteq> PreloaderLoad pl" "\<not> is_hide cb"
    using assms by (auto simp: is_ready_def)
  have "has_class (invoke cb p) i ''hidden'' = has_class p i ''hidden''" for i
    using assms by (auto simp: has_class_navbar has_class_backToTop has_class_other)
  then show ?thesis
    using r by (simp add: preloader_view_def invoke_timers invoke_now hides_def invoke_ran)
qed

lemma view_env:
  "preloader_view (p\<lparr>scrollY := y\<rparr>) = preloader_view p"
  "preloader_view (p\<lparr>defaultPrevented := d\<rparr>) = preloader_view p"
  "preloader_view (p\<lparr>defaultActions := a\<rparr>) = preloader_view p"
  by (simp_all add: preloader_view_def hides_def has_class_def)

lemma view_dispatch:
  assumes "wired (registered pre nav b s) N p"
    and "e \<noteq> DOMContentLoaded" and "e \<noteq> Load" and "\<forall>d. e \<noteq> Elapse d"
  shows "preloader_view (dispatch e p) = preloader_view p"
proof (cases e)
  case (Scroll y)
  with assms(1) show ?thesis
    by (simp add: fire_def wired_def deliver_registered_scroll view_invoke view_env)
next
  case (Click n)
  let ?L = "registered pre nav b s"
  let ?p = "p\<lparr>defaultPrevented := False\<rparr>"
  let ?P = "\<lambda>q. wired ?L N q \<and> preloader_view q = preloader_view p"
  have w: "?P ?p" using assms(1) by (simp add: wired_def view_env)
  have v: "preloader_view (fire t EvClick q) = preloader_view q"
    if "wired ?L N q" for t q
    unfolding fire_click [OF that] Let_def by (simp add: view_invoke)
  have step: "?P (fire t EvClick q)" if "?P q" for t q
    using that fire_click_keeps_wired [of pre nav b s N q t] v [of q t] by simp
  have "?P (propagate ts EvClick ?p)" for ts
    using step w by (rule propagate_invariant)
  then show ?thesis using Click
    by (simp add: Let_def view_env)
next
  case (MouseEnter n)
  with assms(1) show ?thesis by (simp add: fire_def wired_def deliver_registered_mouse)
next
  case (MouseLeave n)
  with assms(1) show ?thesis by (simp add: fire_def wired_def deliver_registered_mouse)
qed (use assms in simp_all)

lemma run_timers_none:
  "timers p = [] \<Longrightarrow> run_timers (p\<lparr>now := t\<rparr>) = p\<lparr>now := t\<rparr>"
  by (simp add: run_timers_def)

lemma run_timers_one:
  assumes "timers p = [(D, cb)]"
  shows "run_timers (p\<lparr>now := t\<rparr>) =
     (if D \<le> t then invoke cb (p\<lparr>now := t, timers := []\<rparr>) else p\<lparr>now := t\<rparr>)"
  using assms by (simp add: run_timers_def)

lemma idle_dispatch:
  assumes "wired (registered pre nav b s) N p"
    and "e \<noteq> DOMContentLoaded" and "e = Load \<longrightarrow> pre = None" and "idle H p"
  shows "idle H (dispatch e p)"
proof (cases "e = Load \<or> (\<exists>d. e = Elapse d)")
  case False
  then have "e \<noteq> Load" and "\<forall>d. e \<noteq> Elapse d" by simp_all
  then have "preloader_view (dispatch e p) = preloader_view p"
    by (rule view_dispatch [OF assms(1,2)])
  from view_cong(1) [OF this] assms(4) show ?thesis by simp
next
  case True
  then show ?thesis
  proof
    assume "e = Load"
    with assms(1,3,4) show ?thesis
      by (simp add: fire_def wired_def deliver_registered_load)
  next
    assume "\<exists>d. e = Elapse d"
    then obtain d where "e = Elapse d" ..
    with assms(4) show ?thesis
      by (simp add: idle_def run_timers_none hides_def has_class_def)
  qed
qed

lemma run_idle:
  assumes "DOMContentLoaded \<notin> set es" and "Load \<in> set es \<longrightarrow> pre = None"
    and "wired (registered pre nav b s) N p" and "idle H p"
  shows "idle H (run es p)"
  using assms
proof (induction es arbitrary: p)
  case Nil
  then show ?case by simp
next
  case (Cons e es)
  from Cons.prems(1) have e: "e \<noteq> DOMContentLoaded" by auto
  from Cons.prems(2) have l: "e = Load \<longrightarrow> pre = None" by simp
  have "wired (registered pre nav b s) N (dispatch e p)"
    using refl e Cons.prems(3) by (rule dispatch_wired)
  moreover have "idle H (dispatch e p)"
    using Cons.prems(3) e l Cons.prems(4) by (rule idle_dispatch)
  moreover have "DOMContentLoaded \<notin> set es" and "Load \<in> set es \<longrightarrow> pre = None"
    using Cons.prems(1,2) by simp_all
  ultimately have "idle H (run es (dispatch e p))" by (intro Cons.IH)
  then show ?case by simp
qed

lemma load_arms:
  assumes "wired (registered (Some pl) nav b s) N p" and "idle H p"
  shows "armed (now p) pl (H pl) (dispatch Load p)"
proof -
  have "dispatch Load p = invoke (PreloaderLoad pl) p"
    using assms(1) by (simp add: fire_def wired_def deliver_registered_load)
  moreover have "timers (invoke (PreloaderLoad pl) p) = [(now p + 500, PreloaderTimeout pl)]"
    using assms(2) by (simp add: idle_def invoke_def preloader_load_def setTimeout_def)
  moreover have "has_class p pl ''hidden'' = H pl"
    using assms(2) by (auto simp: idle_def)
  ultimately show ?thesis
    using assms(2)
    by (simp add: armed_def idle_def invoke_now is_ready_def hides_def invoke_ran
        has_class_other)
qed

lemma armed_or_fired_dispatch:
  assumes "wired (registered pre nav b s) N p" and "pl < N"
    and "e \<noteq> DOMContentLoaded" and "e \<noteq> Load"
    and "armed T pl h p \<or> fired T pl p"
  shows "armed T pl h (dispatch e p) \<or> fired T pl (dispatch e p)"
proof (cases "\<exists>d. e = Elapse d")
  case False
  then have "\<forall>d. e \<noteq> Elapse d" by simp
  then have "preloader_view (dispatch e p) = preloader_view p"
    by (rule view_dispatch [OF assms(1,3,4)])
  from view_cong(2,3) [OF this] assms(5) show ?thesis by simp
next
  case True
  then obtain d where e: "e = Elapse d" ..
  from assms(5) show ?thesis
  proof
    assume a: "armed T pl h p"
    then have t: "timers p = [(T + 500, PreloaderTimeout pl)]" by (simp add: armed_def)
    show ?thesis
    proof (cases "T + 500 \<le> now p + d")
      case True
      let ?q = "p\<lparr>now := now p + d, timers := []\<rparr>"
      have "dispatch e p = invoke (PreloaderTimeout pl) ?q"
        using True by (simp add: e run_timers_one [OF t])
      moreover have "pl < length (elements ?q)" using assms(1,2) by (simp add: wired_def)
      moreover have "hides ?q = []" using a by (simp add: armed_def hides_def)
      ultimately have "fired T pl (dispatch e p)"
        using True
        by (simp add: fired_def has_class_timeout invoke_now invoke_timers is_ready_def
            hides_def invoke_ran)
      then show ?thesis ..
    next
      case False
      then have "dispatch e p = p\<lparr>now := now p + d\<rparr>"
        by (simp add: e run_timers_one [OF t])
      with a False have "armed T pl h (dispatch e p)"
        by (simp add: armed_def hides_def has_class_def)
      then show ?thesis ..
    qed
  next
    assume f: "fired T pl p"
    then have "dispatch e p = p\<lparr>now := now p + d\<rparr>"
      by (simp add: e fired_def run_timers_none)
    with f have "fired T pl (dispatch e p)"
      by (auto simp: fired_def hides_def has_class_def)
    then show ?thesis ..
  qed
qed

lemma run_armed_or_fired:
  assumes "DOMContentLoaded \<notin> set es" and "Load \<notin> set es"
    and "wired (registered pre nav b s) N p" and "pl < N"
    and "armed T pl h p \<or> fired T pl p"
  shows "armed T pl h (run es p) \<or> fired T pl (run es p)"
  using assms
proof (induction es arbitrary: p)
  case Nil
  then show ?case by simp
next
  case (Cons e es)
  from Cons.prems(1,2) have e: "e \<noteq> DOMContentLoaded" "e \<noteq> Load" by auto
  have "wired (registered pre nav b s) N (dispatch e p)"
    using refl e(1) Cons.prems(3) by (rule dispatch_wired)
  moreover have "armed T pl h (dispatch e p) \<or> fired T pl (dispatch e p)"
    using Cons.prems(3,4) e Cons.prems(5) by (rule armed_or_fired_dispatch)
  moreover have "DOMContentLoaded \<notin> set es" and "Load \<notin> set es"
    using Cons.prems(1,2) by simp_all
  ultimately have "armed T pl h (run es (dispatch e p)) \<or> fired T pl (run es (dispatch e p))"
    using Cons.prems(4) by (intro Cons.IH)
  then show ?case by simp
qed

lemma script_ready_idle:
  assumes "listeners p0 = []" and "timers p0 = []" and "ran p0 = []"
  shows "idle (\<lambda>i. has_class p0 i ''hidden'') (dispatch DOMContentLoaded (script_js p0))"
  using assms(2,3)
  by (simp add: script_ready_page [OF assms(1)] idle_def hides_def has_class_def
      del: dispatch.simps)

section \<open>The claims\<close>

subsection \<open>C1\<close>

text \<open>
  C1 at a page that has the back-to-top control and no navigation bar: the ready handler
  completes, and the scroll handler of the navigation bar, run for a scroll event at
  offset 0, ends in a \<open>TypeError\<close> instead of doing nothing.
\<close>

theorem navbar_scroll_handler_throws:
  "getElementById only_backToTop ''mainNavbar'' = None \<and>
   navbar_scroll None ((blank only_backToTop)\<lparr>scrollY := 0\<rparr>) =
     Throw TypeError ((blank only_backToTop)\<lparr>scrollY := 0\<rparr>) \<and>
   uncaught (run [DOMContentLoaded] (script_js (blank only_backToTop))) = [] \<and>
   uncaught (run [DOMContentLoaded, Scroll 0] (script_js (blank only_backToTop))) = [TypeError]"
  by (simp add: blank_def only_backToTop_def html_element_def getElementById_def
      querySelector_class_def script_js_def fire_def invoke_def script_ready_def
      navbar_scroll_def backToTop_scroll_def op_defs)

subsection \<open>C2\<close>

text \<open>
  C2, for the lookups that are guarded. On a page whose navigation bar and back-to-top
  control exist, no run of the page interaction script raises a failure, whether or not
  the preloader, the skip link and the main-content landmark exist; without a preloader
  the load event does nothing, and without a skip link a click that is neither on the
  back-to-top control nor inside it (the control is not on the path of the click) runs no
  handler: only the browser's own default action takes place. The carousel container of
  the carousel controller is outside this statement: its lookup has no existence check,
  as the counterexample shows.
\<close>

theorem guarded_lookups_never_fail:
  assumes "listeners p0 = []" and "timers p0 = []"
    and "getElementById (elements p0) ''mainNavbar'' = Some n"
    and "getElementById (elements p0) ''backToTop'' = Some b"
    and "DOMContentLoaded \<notin> set es"
    and "p = run (DOMContentLoaded # es) (script_js p0)"
  shows "uncaught p = uncaught p0 \<and>
     (querySelector_class (elements p0) ''preloader'' = None \<longrightarrow> dispatch Load p = p) \<and>
     (querySelector_class (elements p0) ''sr-only-focusable'' = None \<longrightarrow>
        (\<forall>m. b \<notin> set (event_path (elements p) m) \<longrightarrow>
           dispatch (Click m) p =
             p\<lparr>defaultPrevented := False, defaultActions := defaultActions p @ [m]\<rparr>))"
proof -
  let ?L = "registered (querySelector_class (elements p0) ''preloader'') (Some n) (Some b)
      (querySelector_class (elements p0) ''sr-only-focusable'')"
  have w: "wired ?L (length (elements p0)) p"
    using script_run_wired [OF assms(1,2,5)] assms(3,4,6) by simp
  have "uncaught p = uncaught p0"
    using script_run_uncaught [OF assms(1,2,5,4)] assms(3,6)
    by (simp add: concat_scroll_errors_present)
  moreover have "dispatch Load p = p"
    if "querySelector_class (elements p0) ''preloader'' = None"
    using w that by (simp add: fire_def wired_def deliver_registered_load)
  moreover have "dispatch (Click m) p =
      p\<lparr>defaultPrevented := False, defaultActions := defaultActions p @ [m]\<rparr>"
    if none: "querySelector_class (elements p0) ''sr-only-focusable'' = None"
      and off: "b \<notin> set (event_path (elements p) m)" for m
  proof -
    let ?p = "p\<lparr>defaultPrevented := False\<rparr>"
    let ?ts = "map Elem (event_path (elements p) m) @ [Document, Window]"
    have w': "wired (registered (querySelector_class (elements p0) ''preloader'') (Some n)
        (Some b) None) (length (elements p0)) ?p"
      using w none by (simp add: wired_def)
    have "\<forall>t \<in> set ?ts. \<not> is_elem (Some b) t" using off by (auto simp: is_elem_def)
    moreover have "Some b = None \<or> (\<forall>t \<in> set ?ts. \<not> is_elem None t)"
      by (simp add: is_elem_def)
    ultimately have "propagate ?ts EvClick ?p = ?p"
      by (rule propagate_click_off_both [OF w'])
    then show ?thesis by (simp add: Let_def)
  qed
  ultimately show ?thesis by blast
qed

theorem guarded_lookups_never_fail_witness:
  "uncaught (run (DOMContentLoaded # [Load, Scroll 400, Click 2])
      (script_js (blank nested_controls))) = [] \<and>
   dispatch Load (run (DOMContentLoaded # [Load, Scroll 400, Click 2])
      (script_js (blank nested_controls))) =
   run (DOMContentLoaded # [Load, Scroll 400, Click 2]) (script_js (blank nested_controls)) \<and>
   defaultActions (dispatch (Click 3)
     (run (DOMContentLoaded # [Load, Scroll 400, Click 2])
      (script_js (blank nested_controls)))) =
   defaultActions (run (DOMContentLoaded # [Load, Scroll 400, Click 2])
      (script_js (blank nested_controls))) @ [3]"
proof -
  let ?p = "run (DOMContentLoaded # [Load, Scroll 400, Click 2])
      (script_js (blank nested_controls))"
  have "map parent (elements ?p) = [None, None, Some 1, Some 0]"
    by (simp add: blank_def nested_controls_def html_element_def child_of_def
        getElementById_def querySelector_class_def script_js_def fire_def invoke_def
        script_ready_def handler_defs op_defs event_path.simps Let_def)
  then have "event_path (elements ?p) 3 = [3, 0]"
    by (simp add: event_path.simps list_eq_iff_nth_eq [of "map parent _"] nth_Cons'
        del: run.simps dispatch.simps)
  with guarded_lookups_never_fail [of "blank nested_controls" 0 1
      "[Load, Scroll 400, Click 2]", OF _ _ _ _ _ refl]
  show ?thesis
    by (simp add: blank_def nested_controls_def html_element_def child_of_def
        getElementById_def querySelector_class_def del: run.simps dispatch.simps)
qed

theorem carousel_lookup_unguarded_counterexample:
  "getElementById [html_element (Some ''mainNavbar'') [] None] ''carCarousel'' = None \<and>
   uncaught (run [DOMContentLoaded]
      (main_js (blank [html_element (Some ''mainNavbar'') [] None]))) = [TypeError] \<and>
   uncaught (run [DOMContentLoaded]
      (main_js ((blank [html_element (Some ''mainNavbar'') [] None])
         \<lparr>ctorRejectsNull := True\<rparr>))) = [TypeError]"
  by (simp add: blank_def html_element_def getElementById_def main_js_def fire_def invoke_def
      main_ready_def new_Carousel_def addEventListener_def)

subsection \<open>C3\<close>

text \<open>
  C3, for the navigation bar. On a page without \<^verbatim>\<open>#mainNavbar\<close> whose back-to-top
  control exists, the ready handler completes without a failure and so does every event
  that is not a scroll event; the first scroll event then raises the null-reference
  failure. A page without the back-to-top control is outside this statement: there the
  ready handler itself fails, as the counterexample shows.
\<close>

theorem missing_navbar_fails_on_scroll:
  assumes "listeners p0 = []" and "timers p0 = []"
    and "getElementById (elements p0) ''mainNavbar'' = None"
    and "getElementById (elements p0) ''backToTop'' = Some b"
    and "DOMContentLoaded \<notin> set es"
    and "\<forall>e \<in> set es. \<not> is_scroll e"
  shows "uncaught (run [DOMContentLoaded] (script_js p0)) = uncaught p0 \<and>
     uncaught (run (DOMContentLoaded # es) (script_js p0)) = uncaught p0 \<and>
     uncaught (run (DOMContentLoaded # es @ [Scroll y]) (script_js p0)) =
       uncaught p0 @ [TypeError]"
proof -
  have "uncaught (run (DOMContentLoaded # []) (script_js p0)) = uncaught p0"
    using script_run_uncaught [of p0 "[]" b] assms(1,2,4) by simp
  moreover have "uncaught (run (DOMContentLoaded # es) (script_js p0)) = uncaught p0"
    using script_run_uncaught [OF assms(1,2,5,4)] assms(6)
    by (simp add: concat_scroll_errors)
  moreover have "uncaught (run (DOMContentLoaded # es @ [Scroll y]) (script_js p0)) =
       uncaught p0 @ [TypeError]"
    using script_run_uncaught [of p0 "es @ [Scroll y]" b] assms
    by (simp add: concat_scroll_errors scroll_errors_def)
  ultimately show ?thesis by blast
qed

theorem missing_navbar_fails_on_scroll_witness:
  "uncaught (run [DOMContentLoaded] (script_js (blank only_backToTop))) = [] \<and>
   uncaught (run (DOMContentLoaded # [Load, Click 0, Elapse 700])
      (script_js (blank only_backToTop))) = [] \<and>
   uncaught (run (DOMContentLoaded # [Load, Click 0, Elapse 700] @ [Scroll 10])
      (script_js (blank only_backToTop))) = [TypeError]"
  using missing_navbar_fails_on_scroll [of "blank only_backToTop" 0
      "[Load, Click 0, Elapse 700]" 10]
  by (simp add: blank_def only_backToTop_def html_element_def getElementById_def
      del: run.simps dispatch.simps)

theorem missing_backToTop_fails_at_ready_counterexample:
  "getElementById only_navbar ''backToTop'' = None \<and>
   uncaught (blank only_navbar) = [] \<and>
   uncaught (run [DOMContentLoaded] (script_js (blank only_navbar))) = [TypeError]"
  by (simp add: blank_def only_navbar_def html_element_def getElementById_def
      querySelector_class_def script_js_def fire_def invoke_def script_ready_def
      addEventListener_def)

subsection \<open>C4\<close>

text \<open>
  C4, with the name of the class as the source has it. On a page whose navigation bar
  \<^verbatim>\<open>#mainNavbar\<close> exists, after the ready handler and any further events, a scroll
  event at offset \<open>y\<close> leaves the navigation bar with the class
  \<^verbatim>\<open>navbar-scrolled\<close> exactly when \<open>y > 50\<close>: absent for every offset up to and
  including 50, present for every offset above. The class is \<^verbatim>\<open>navbar-scrolled\<close>;
  a class called \<^verbatim>\<open>scrolled\<close> is never touched, as the counterexample shows.
\<close>

theorem navbar_scrolled_class:
  assumes "listeners p0 = []" and "timers p0 = []"
    and "getElementById (elements p0) ''mainNavbar'' = Some n"
    and "DOMContentLoaded \<notin> set es"
  shows "has_class (run (DOMContentLoaded # es @ [Scroll y]) (script_js p0)) n
           ''navbar-scrolled'' \<longleftrightarrow> 50 < y"
proof -
  let ?pre = "querySelector_class (elements p0) ''preloader''"
  let ?b = "getElementById (elements p0) ''backToTop''"
  let ?s = "querySelector_class (elements p0) ''sr-only-focusable''"
  let ?L = "registered ?pre (Some n) ?b ?s"
  let ?p = "run es (dispatch DOMContentLoaded (script_js p0))"
  have "wired ?L (length (elements p0)) (dispatch DOMContentLoaded (script_js p0))"
    using script_ready_wired [OF assms(1,2)] assms(3) by simp
  then have w: "wired ?L (length (elements p0)) ?p"
    using assms(4) by (auto intro: run_wired)
  have n: "n < length (elements p0)" using assms(3) by (rule getElementById_bound)
  have "run (DOMContentLoaded # es @ [Scroll y]) (script_js p0) = dispatch (Scroll y) ?p"
    by (simp add: run_append)
  also have "\<dots> = invoke (BackToTopScroll ?b) (invoke (NavbarScroll (Some n)) (?p\<lparr>scrollY := y\<rparr>))"
    using w by (simp add: fire_def wired_def deliver_registered_scroll)
  finally show ?thesis
    using w n by (simp add: has_class_backToTop has_class_navbar wired_def)
qed

theorem navbar_scrolled_class_witness:
  "has_class (run (DOMContentLoaded # [Load, Scroll 20] @ [Scroll 51])
       (script_js (blank [html_element (Some ''mainNavbar'') [] None,
                          html_element (Some ''backToTop'') [] None]))) 0 ''navbar-scrolled''"
  using navbar_scrolled_class [of "blank [html_element (Some ''mainNavbar'') [] None,
      html_element (Some ''backToTop'') [] None]" 0 "[Load, Scroll 20]" 51]
  by (simp add: blank_def html_element_def getElementById_def)

theorem navbar_class_name_counterexample:
  "(50 :: real) < 51 \<and>
   \<not> has_class (run [DOMContentLoaded, Scroll 51]
       (script_js (blank [html_element (Some ''mainNavbar'') [] None,
                          html_element (Some ''backToTop'') [] None]))) 0 ''scrolled''"
  by (simp add: blank_def html_element_def getElementById_def querySelector_class_def
      script_js_def fire_def invoke_def script_ready_def has_class_def handler_defs op_defs)

subsection \<open>C5\<close>

text \<open>
  C5. On a page whose back-to-top control \<^verbatim>\<open>#backToTop\<close> exists, after the ready
  handler and any further events, a scroll event at offset \<open>y\<close> leaves the control with
  the class \<^verbatim>\<open>show\<close> exactly when \<open>y > 300\<close>.
\<close>

theorem backToTop_show_class:
  assumes "listeners p0 = []" and "timers p0 = []"
    and "getElementById (elements p0) ''backToTop'' = Some b"
    and "DOMContentLoaded \<notin> set es"
  shows "has_class (run (DOMContentLoaded # es @ [Scroll y]) (script_js p0)) b ''show''
           \<longleftrightarrow> 300 < y"
proof -
  let ?pre = "querySelector_class (elements p0) ''preloader''"
  let ?nav = "getElementById (elements p0) ''mainNavbar''"
  let ?s = "querySelector_class (elements p0) ''sr-only-focusable''"
  let ?L = "registered ?pre ?nav (Some b) ?s"
  let ?p = "run es (dispatch DOMContentLoaded (script_js p0))"
  have "wired ?L (length (elements p0)) (dispatch DOMContentLoaded (script_js p0))"
    using script_ready_wired [OF assms(1,2)] assms(3) by simp
  then have w: "wired ?L (length (elements p0)) ?p"
    using assms(4) by (auto intro: run_wired)
  have b: "b < length (elements p0)" using assms(3) by (rule getElementById_bound)
  have "run (DOMContentLoaded # es @ [Scroll y]) (script_js p0) = dispatch (Scroll y) ?p"
    by (simp add: run_append)
  also have "\<dots> = invoke (BackToTopScroll (Some b)) (invoke (NavbarScroll ?nav) (?p\<lparr>scrollY := y\<rparr>))"
    using w by (simp add: fire_def wired_def deliver_registered_scroll)
  finally show ?thesis
    using w b
    by (simp add: has_class_backToTop invoke_length invoke_scrollY is_ready_def wired_def)
qed

theorem backToTop_show_class_witness:
  "\<not> has_class (run (DOMContentLoaded # [Scroll 301, Elapse 5] @ [Scroll 300])
       (script_js (blank [html_element (Some ''mainNavbar'') [] None,
                          html_element (Some ''backToTop'') [''show''] None]))) 1 ''show''"
  using backToTop_show_class [of "blank [html_element (Some ''mainNavbar'') [] None,
      html_element (Some ''backToTop'') [''show''] None]" 1 "[Scroll 301, Elapse 5]" 300]
  by (simp add: blank_def html_element_def getElementById_def)

subsection \<open>C6\<close>

text \<open>
  C6, with the guard and the assignment as the source has them. On a page where the
  ready handler has registered the skip-link handler (the back-to-top control and the
  skip link exist), a click on the skip link, in any state the page can reach, prevents
  the default navigation. If the main-content landmark exists at that moment, the
  handler sets its \<^verbatim>\<open>tabindex\<close> attribute to \<^verbatim>\<open>-1\<close>, whatever it was before; keyboard
  focus then moves to the landmark, whatever had focus before, provided the landmark is
  rendered, not disabled and not inert, and stays where it was otherwise. If the landmark
  does not exist, focus and document stay as they were.
\<close>

theorem skipLink_click_moves_focus:
  assumes "listeners p0 = []" and "timers p0 = []"
    and "getElementById (elements p0) ''backToTop'' = Some b"
    and "querySelector_class (elements p0) ''sr-only-focusable'' = Some s"
    and "DOMContentLoaded \<notin> set es"
    and "p = run (DOMContentLoaded # es) (script_js p0)"
    and "q = dispatch (Click s) p"
  shows "defaultPrevented q \<and> defaultActions q = defaultActions p \<and>
     (case getElementById (elements p) ''main-content'' of
        Some m \<Rightarrow>
          attrs (elements q ! m) ''tabindex'' = Some ''-1'' \<and>
          activeElement q =
            (if hidden (elements p ! m) \<or> disabled (elements p ! m) \<or> inert (elements p ! m)
             then activeElement p else Some m)
      | None \<Rightarrow> activeElement q = activeElement p \<and> elements q = elements p)"
proof -
  let ?L = "registered (querySelector_class (elements p0) ''preloader'')
      (getElementById (elements p0) ''mainNavbar'') (Some b) (Some s)"
  let ?N = "length (elements p0)"
  let ?p = "p\<lparr>defaultPrevented := False\<rparr>"
  define r0 where "r0 = (if b = s then invoke BackToTopClick ?p else ?p)"
  define r where "r = invoke SkipLinkClick r0"
  have "wired ?L ?N p"
    using script_run_wired [OF assms(1,2,5)] assms(3,4,6) by simp
  then have w: "wired ?L ?N ?p" by (simp add: wired_def)
  obtain ts where ts: "map Elem (event_path (elements p) s) @ [Document, Window] = Elem s # ts"
    and off: "Elem s \<notin> set ts"
    using click_targets by blast
  have first: "fire (Elem s) EvClick ?p = r"
    by (auto simp: fire_click [OF w] Let_def r_def r0_def is_elem_def)
  have r0: "elements r0 = elements p" "activeElement r0 = activeElement p"
    "defaultActions r0 = defaultActions p"
    by (simp_all add: r0_def invoke_BackToTopClick)
  have r: "defaultPrevented r" "defaultActions r = defaultActions p"
    by (simp_all add: r_def invoke_SkipLinkClick_frame r0)
  have wr: "wired ?L ?N r" unfolding first [symmetric] using w by (rule fire_click_keeps_wired)
  let ?q = "propagate ts EvClick r"
  have "\<forall>t \<in> set ts. \<not> is_elem (Some s) t" using off by (auto simp: is_elem_def)
  with wr have rest: "elements ?q = elements r \<and> activeElement ?q = activeElement r"
    by (rule propagate_click_off_skipLink)
  note frame = propagate_click_frame [OF wr, of ts]
  have "q = (let q' = ?q
      in if defaultPrevented q' then q' else q'\<lparr>defaultActions := defaultActions q' @ [s]\<rparr>)"
    by (simp add: assms(7) ts first)
  then have q: "q = ?q" using frame(3) r(1) by (simp add: Let_def)
  have head: "defaultPrevented q \<and> defaultActions q = defaultActions p"
    using frame r by (simp add: q)
  show ?thesis
  proof (cases "getElementById (elements p) ''main-content''")
    case None
    then have "getElementById (elements r0) ''main-content'' = None" by (simp add: r0)
    from invoke_SkipLinkClick_None [OF this] None head rest show ?thesis
      by (simp add: q r_def r0)
  next
    case (Some m)
    then have "getElementById (elements r0) ''main-content'' = Some m" by (simp add: r0)
    from invoke_SkipLinkClick_Some [OF this] Some head rest show ?thesis
      by (simp add: q r_def r0)
  qed
qed

theorem skipLink_click_moves_focus_witness:
  "defaultPrevented (dispatch (Click 1) (run (DOMContentLoaded # [Scroll 70, Click 0])
      (script_js (blank landmark_in_tab_order)))) \<and>
   activeElement (dispatch (Click 1) (run (DOMContentLoaded # [Scroll 70, Click 0])
      (script_js (blank landmark_in_tab_order)))) = Some 2"
proof -
  let ?p = "run (DOMContentLoaded # [Scroll 70, Click 0]) (script_js (blank landmark_in_tab_order))"
  have e: "elements ?p = landmark_in_tab_order"
    by (simp add: blank_def landmark_in_tab_order_def html_element_def getElementById_def
      querySelector_class_def script_js_def fire_def invoke_def script_ready_def
      handler_defs op_defs event_path.simps)
  have "getElementById (elements ?p) ''main-content'' = Some 2"
    unfolding e by (simp add: landmark_in_tab_order_def html_element_def getElementById_def)
  moreover have "\<not> hidden (elements ?p ! 2) \<and> \<not> disabled (elements ?p ! 2) \<and>
      \<not> inert (elements ?p ! 2)"
    unfolding e by (simp add: landmark_in_tab_order_def html_element_def)
  moreover note skipLink_click_moves_focus [of "blank landmark_in_tab_order" 0 1
      "[Scroll 70, Click 0]", OF _ _ _ _ _ refl refl]
  ultimately show ?thesis
    by (simp add: blank_def landmark_in_tab_order_def html_element_def getElementById_def
      querySelector_class_def del: run.simps dispatch.simps)
qed

theorem skipLink_click_counterexample:
  "getElementById no_landmark ''main-content'' = None \<and>
   activeElement (run [DOMContentLoaded, Click 1]
      (script_js ((blank no_landmark)\<lparr>activeElement := Some 1\<rparr>))) = Some 1 \<and>
   focusable (landmark_in_tab_order ! 2) \<and>
   attrs (landmark_in_tab_order ! 2) ''tabindex'' = Some ''0'' \<and>
   attrs (elements (run [DOMContentLoaded, Click 1]
      (script_js (blank landmark_in_tab_order))) ! 2) ''tabindex'' = Some ''-1'' \<and>
   getElementById hidden_landmark ''main-content'' = Some 2 \<and>
   hidden (hidden_landmark ! 2) \<and>
   activeElement (run [DOMContentLoaded, Click 1]
      (script_js ((blank hidden_landmark)\<lparr>activeElement := Some 1\<rparr>))) = Some 1"
  by (simp add: blank_def no_landmark_def landmark_in_tab_order_def hidden_landmark_def
      html_element_def getElementById_def querySelector_class_def script_js_def fire_def
      invoke_def script_ready_def handler_defs op_defs focusable_def event_path.simps
      parses_integer_def is_space_def is_digit_def)

subsection \<open>C7\<close>

text \<open>
  C7. Take a page load: the ready event, then events among which the load event occurs
  once, at the time \<open>now p_load\<close>. If a preloader exists when the ready handler runs, the
  timeout callback has not run and the preloader's \<^verbatim>\<open>hidden\<close> class is as it was in
  the markup, up to the load event and for as long as fewer than 500 ms have passed since;
  once 500 ms have passed, the callback has run exactly once, at a time no earlier than
  500 ms after the load event, and the preloader has the class. If no preloader exists,
  the callback never runs, no timer is set, and no element gains or loses the class.
\<close>

theorem preloader_hidden_once:
  assumes "listeners p0 = []" and "timers p0 = []" and "ran p0 = []"
    and "DOMContentLoaded \<notin> set es1" and "Load \<notin> set es1"
    and "DOMContentLoaded \<notin> set es2" and "Load \<notin> set es2"
    and "p_load = run (DOMContentLoaded # es1) (script_js p0)"
    and "p = run (Load # es2) p_load"
  shows "case querySelector_class (elements p0) ''preloader'' of
       Some pl \<Rightarrow>
         hides p_load = [] \<and>
         has_class p_load pl ''hidden'' = has_class p0 pl ''hidden'' \<and>
         (now p < now p_load + 500 \<longrightarrow>
            hides p = [] \<and> has_class p pl ''hidden'' = has_class p0 pl ''hidden'') \<and>
         (now p_load + 500 \<le> now p \<longrightarrow>
            has_class p pl ''hidden'' \<and>
            (\<exists>t. hides p = [(t, PreloaderTimeout pl)] \<and> now p_load + 500 \<le> t \<and> t \<le> now p))
     | None \<Rightarrow>
         hides p = [] \<and> timers p = [] \<and>
         (\<forall>i. has_class p i ''hidden'' = has_class p0 i ''hidden'')"
proof -
  let ?pre = "querySelector_class (elements p0) ''preloader''"
  let ?L = "registered ?pre (getElementById (elements p0) ''mainNavbar'')
      (getElementById (elements p0) ''backToTop'')
      (querySelector_class (elements p0) ''sr-only-focusable'')"
  let ?N = "length (elements p0)"
  let ?H = "\<lambda>i. has_class p0 i ''hidden''"
  let ?p1 = "dispatch DOMContentLoaded (script_js p0)"
  have w1: "wired ?L ?N ?p1" by (rule script_ready_wired [OF assms(1,2)])
  have i1: "idle ?H ?p1" by (rule script_ready_idle [OF assms(1,2,3)])
  have pl: "p_load = run es1 ?p1" using assms(8) by simp
  have wl: "wired ?L ?N p_load" unfolding pl using refl assms(4) w1 by (rule run_wired)
  show ?thesis
  proof (cases ?pre)
    case None
    have p: "p = run (es1 @ Load # es2) ?p1" using assms(9) pl by (simp add: run_append)
    have "DOMContentLoaded \<notin> set (es1 @ Load # es2)" using assms(4,6) by simp
    moreover have "Load \<in> set (es1 @ Load # es2) \<longrightarrow> ?pre = None" using None by simp
    ultimately have "idle ?H p" unfolding p using w1 i1 by (rule run_idle)
    then have "hides p = [] \<and> timers p = [] \<and> (\<forall>i. has_class p i ''hidden'' = ?H i)"
      by (auto simp: idle_def dest: fun_cong)
    with None show ?thesis by simp
  next
    case (Some n)
    have n: "n < ?N" using Some by (rule querySelector_class_bound)
    have "Load \<in> set es1 \<longrightarrow> ?pre = None" using assms(5) by simp
    with assms(4) have il: "idle ?H p_load" unfolding pl using w1 i1 by (rule run_idle)
    have wl': "wired (registered (Some n) (getElementById (elements p0) ''mainNavbar'')
        (getElementById (elements p0) ''backToTop'')
        (querySelector_class (elements p0) ''sr-only-focusable'')) ?N p_load"
      using wl Some by simp
    let ?T = "now p_load"
    have a: "armed ?T n (?H n) (dispatch Load p_load)" using wl' il by (rule load_arms)
    have "wired ?L ?N (dispatch Load p_load)" using refl _ wl by (rule dispatch_wired) simp
    with assms(6,7) have "armed ?T n (?H n) (run es2 (dispatch Load p_load)) \<or>
        fired ?T n (run es2 (dispatch Load p_load))"
      using n a by (intro run_armed_or_fired) simp_all
    then have af: "armed ?T n (?H n) p \<or> fired ?T n p" using assms(9) by simp
    have before: "hides p_load = [] \<and> has_class p_load n ''hidden'' = ?H n"
      using il by (auto simp: idle_def dest: fun_cong)
    have early: "hides p = [] \<and> has_class p n ''hidden'' = ?H n" if "now p < ?T + 500"
      using af that by (auto simp: armed_def fired_def)
    have late: "has_class p n ''hidden'' \<and>
        (\<exists>t. hides p = [(t, PreloaderTimeout n)] \<and> ?T + 500 \<le> t \<and> t \<le> now p)"
      if "?T + 500 \<le> now p"
      using af that by (auto simp: armed_def fired_def)
    from before early late Some show ?thesis by simp
  qed
qed

theorem preloader_hidden_once_witness:
  "has_class (run (Load # [Elapse 499, Scroll 400, Elapse 1])
      (run (DOMContentLoaded # [Scroll 10]) (script_js (blank preloader_page)))) 0 ''hidden'' \<and>
   hides (run (Load # [Elapse 499, Scroll 400, Elapse 1])
      (run (DOMContentLoaded # [Scroll 10]) (script_js (blank preloader_page)))) =
     [(500, PreloaderTimeout 0)]"
proof -
  let ?pl = "run (DOMContentLoaded # [Scroll 10]) (script_js (blank preloader_page))"
  let ?p = "run (Load # [Elapse 499, Scroll 400, Elapse 1]) ?pl"
  have t: "now ?pl = 0" "now ?p = 500"
    by (simp_all add: blank_def preloader_page_def html_element_def getElementById_def
        querySelector_class_def script_js_def fire_def invoke_def script_ready_def
        run_timers_def handler_defs op_defs)
  have q: "querySelector_class (elements (blank preloader_page)) ''preloader'' = Some 0"
    by (simp add: blank_def preloader_page_def html_element_def querySelector_class_def)
  have "has_class ?p 0 ''hidden'' \<and>
      (\<exists>t. hides ?p = [(t, PreloaderTimeout 0)] \<and> now ?pl + 500 \<le> t \<and> t \<le> now ?p)"
    using preloader_hidden_once [of "blank preloader_page" "[Scroll 10]"
        "[Elapse 499, Scroll 400, Elapse 1]" ?pl ?p, OF _ _ _ _ _ _ _ refl refl]
    unfolding q t by (simp add: blank_def)
  then show ?thesis unfolding t by auto
qed

subsection \<open>C8\<close>

text \<open>
  C8. On a page whose carousel container \<^verbatim>\<open>#carCarousel\<close> exists, the ready handler of
  the carousel controller completes and constructs one carousel, on the container, with
  interval 5000, wrap and keyboard enabled. In every state the page reaches afterwards the
  carousel still has that element and configuration; a pointer-enter event on the
  container sends it one \<^verbatim>\<open>pause()\<close>, a pointer-leave event one \<^verbatim>\<open>cycle()\<close>, and after
  enter followed by leave the last call it has received is \<^verbatim>\<open>cycle()\<close>: it is
  auto-advancing.
\<close>

theorem carousel_controller_contract:
  assumes "listeners p0 = []" and "timers p0 = []"
    and "getElementById (elements p0) ''carCarousel'' = Some c"
    and "DOMContentLoaded \<notin> set es"
    and "p1 = run [DOMContentLoaded] (main_js p0)"
    and "p = run es p1"
    and "w = length (carousels p0)"
  shows "uncaught p1 = uncaught p0 \<and>
     carousels p1 = carousels p0 @
       [\<lparr>boundTo = Some c,
         config = \<lparr>cfg_interval = 5000, cfg_wrap = True, cfg_keyboard = True\<rparr>,
         calls = []\<rparr>] \<and>
     boundTo (carousels p ! w) = Some c \<and>
     config (carousels p ! w) = \<lparr>cfg_interval = 5000, cfg_wrap = True, cfg_keyboard = True\<rparr> \<and>
     calls (carousels (dispatch (MouseEnter c) p) ! w) = calls (carousels p ! w) @ [Pause] \<and>
     calls (carousels (dispatch (MouseLeave c) p) ! w) = calls (carousels p ! w) @ [Cycle] \<and>
     auto_advancing (carousels (dispatch (MouseEnter c) p) ! w) = Some False \<and>
     auto_advancing (carousels (run [MouseEnter c, MouseLeave c] p) ! w) = Some True"
proof -
  have p1: "p1 = dispatch DOMContentLoaded (main_js p0)" using assms(5) by simp
  note page = main_ready_page [OF assms(1,3)]
  have w1: "carousel_wired c w p1"
    unfolding p1 page using assms(2,7) by (simp add: carousel_wired_def)
  then have w: "carousel_wired c w p"
    unfolding assms(6) using assms(4) by (rule run_carousel_wired [rotated])
  then have lt: "w < length (carousels p)" by (simp add: carousel_wired_def)
  have enter: "dispatch (MouseEnter c) p =
      carousel_call w Pause (p\<lparr>ran := ran p @ [(now p, CarouselMouseEnter w)]\<rparr>)"
    using dispatch_mouse_carousel(1) [OF w] by (simp add: invoke_carousel_call)
  have leave: "dispatch (MouseLeave c) q =
      carousel_call w Cycle (q\<lparr>ran := ran q @ [(now q, CarouselMouseLeave w)]\<rparr>)"
    if "carousel_wired c w q" for q
    using dispatch_mouse_carousel(2) [OF that] by (simp add: invoke_carousel_call)
  have w2: "carousel_wired c w (dispatch (MouseEnter c) p)"
    using w by (intro dispatch_carousel_wired) simp_all
  then have lt2: "w < length (carousels (dispatch (MouseEnter c) p))"
    by (simp add: carousel_wired_def)
  have a: "uncaught p1 = uncaught p0" unfolding p1 page by simp
  have b: "carousels p1 = carousels p0 @
       [\<lparr>boundTo = Some c,
         config = \<lparr>cfg_interval = 5000, cfg_wrap = True, cfg_keyboard = True\<rparr>,
         calls = []\<rparr>]"
    unfolding p1 page by simp
  have c: "boundTo (carousels p ! w) = Some c \<and>
     config (carousels p ! w) = \<lparr>cfg_interval = 5000, cfg_wrap = True, cfg_keyboard = True\<rparr>"
    using w by (simp add: carousel_wired_def)
  have d: "calls (carousels (dispatch (MouseEnter c) p) ! w) = calls (carousels p ! w) @ [Pause]"
    unfolding enter using lt by (simp add: carousel_call_calls)
  have e: "calls (carousels (dispatch (MouseLeave c) p) ! w) = calls (carousels p ! w) @ [Cycle]"
    unfolding leave [OF w] using lt by (simp add: carousel_call_calls)
  have f: "auto_advancing (carousels (dispatch (MouseEnter c) p) ! w) = Some False"
    using d by (simp add: auto_advancing_def)
  have "calls (carousels (dispatch (MouseLeave c) (dispatch (MouseEnter c) p)) ! w) =
      calls (carousels (dispatch (MouseEnter c) p) ! w) @ [Cycle]"
    unfolding leave [OF w2] using lt2 by (simp add: carousel_call_calls)
  then have g: "auto_advancing (carousels (run [MouseEnter c, MouseLeave c] p) ! w) = Some True"
    by (simp add: auto_advancing_def)
  from a b c d e f g show ?thesis by blast
qed

theorem carousel_controller_contract_witness:
  "carousels (run [DOMContentLoaded] (main_js (blank carousel_page))) =
     [\<lparr>boundTo = Some 1,
       config = \<lparr>cfg_interval = 5000, cfg_wrap = True, cfg_keyboard = True\<rparr>,
       calls = []\<rparr>] \<and>
   auto_advancing (carousels (run [MouseEnter 1, MouseLeave 1]
      (run [Scroll 3, MouseEnter 1] (run [DOMContentLoaded] (main_js (blank carousel_page))))) ! 0)
     = Some True"
  using carousel_controller_contract [of "blank carousel_page" 1 "[Scroll 3, MouseEnter 1]",
      OF _ _ _ _ refl refl refl]
  by (simp add: blank_def carousel_page_def html_element_def getElementById_def
      del: run.simps dispatch.simps)

subsection \<open>C9\<close>

text \<open>
  C9. A click on the back-to-top control, in any state the page can reach after the
  ready handler (so at any scroll offset), prevents the default action of the click and
  issues exactly one more scroll command: to offset 0, smooth.
\<close>

theorem backToTop_click_scrolls_to_top:
  assumes "listeners p0 = []" and "timers p0 = []"
    and "getElementById (elements p0) ''backToTop'' = Some b"
    and "DOMContentLoaded \<notin> set es"
    and "p = run (DOMContentLoaded # es) (script_js p0)"
    and "q = dispatch (Click b) p"
  shows "defaultPrevented q \<and> defaultActions q = defaultActions p \<and>
     scrollToCalls q = scrollToCalls p @ [\<lparr>sc_top = 0, sc_smooth = True\<rparr>] \<and>
     scrollY q = scrollY p"
proof -
  let ?L = "registered (querySelector_class (elements p0) ''preloader'')
      (getElementById (elements p0) ''mainNavbar'') (Some b)
      (querySelector_class (elements p0) ''sr-only-focusable'')"
  let ?N = "length (elements p0)"
  let ?p = "p\<lparr>defaultPrevented := False\<rparr>"
  let ?r = "fire (Elem b) EvClick ?p"
  have "wired ?L ?N p"
    using script_run_wired [OF assms(1,2,4)] assms(3,5) by simp
  then have w: "wired ?L ?N ?p" by (simp add: wired_def)
  obtain ts where ts: "map Elem (event_path (elements p) b) @ [Document, Window] = Elem b # ts"
    and off: "Elem b \<notin> set ts"
    using click_targets by blast
  have r: "defaultPrevented ?r" "defaultActions ?r = defaultActions p"
    "scrollToCalls ?r = scrollToCalls p @ [\<lparr>sc_top = 0, sc_smooth = True\<rparr>]"
    "scrollY ?r = scrollY p"
    by (simp_all add: fire_click [OF w] Let_def invoke_BackToTopClick
        invoke_SkipLinkClick_frame invoke_scrollY is_ready_def is_elem_def)
  have wr: "wired ?L ?N ?r" using w by (rule fire_click_keeps_wired)
  have "\<forall>t \<in> set ts. \<not> is_elem (Some b) t" using off by (auto simp: is_elem_def)
  with wr have "scrollToCalls (propagate ts EvClick ?r) = scrollToCalls ?r"
    by (rule propagate_click_off_backToTop)
  moreover note propagate_click_frame [OF wr, of ts]
  moreover have "q = (let q' = propagate ts EvClick ?r
      in if defaultPrevented q' then q' else q'\<lparr>defaultActions := defaultActions q' @ [b]\<rparr>)"
    by (simp add: assms(6) ts)
  ultimately show ?thesis using r by (simp add: Let_def)
qed

theorem backToTop_click_scrolls_to_top_witness:
  "defaultPrevented (dispatch (Click 1) (run (DOMContentLoaded # [Scroll 1234])
      (script_js (blank two_controls)))) \<and>
   scrollToCalls (dispatch (Click 1) (run (DOMContentLoaded # [Scroll 1234])
      (script_js (blank two_controls)))) =
   scrollToCalls (run (DOMContentLoaded # [Scroll 1234]) (script_js (blank two_controls))) @
     [\<lparr>sc_top = 0, sc_smooth = True\<rparr>]"
  using backToTop_click_scrolls_to_top [of "blank two_controls" 1 "[Scroll 1234]",
      OF _ _ _ _ refl refl]
  by (simp add: blank_def two_controls_def html_element_def getElementById_def
      del: run.simps dispatch.simps)

subsection \<open>C10\<close>

text \<open>
  C10. The scroll handler of the navigation bar changes nothing in the page but the
  class list of the navigation bar, and there nothing but whether
  \<^verbatim>\<open>navbar-scrolled\<close> is a member; the scroll handler of the back-to-top control does
  the same for the control and \<^verbatim>\<open>show\<close>. All other elements, every attribute, the other
  classes and their order, the scroll position and the rest of the page are as before.
  Running either handler again on its own result gives that result again.
\<close>

theorem scroll_handlers_frame_idempotent:
  "toggles_only ''navbar-scrolled'' navbar p (page_of (navbar_scroll navbar p)) \<and>
   scrollY (page_of (navbar_scroll navbar p)) = scrollY p \<and>
   navbar_scroll navbar (page_of (navbar_scroll navbar p)) = navbar_scroll navbar p \<and>
   toggles_only ''show'' backToTopButton p (page_of (backToTop_scroll backToTopButton p)) \<and>
   scrollY (page_of (backToTop_scroll backToTopButton p)) = scrollY p \<and>
   backToTop_scroll backToTopButton (page_of (backToTop_scroll backToTopButton p)) =
     backToTop_scroll backToTopButton p"
proof -
  have "scrollY (page_of (navbar_scroll navbar p)) = scrollY p"
    by (cases navbar)
       (simp_all add: navbar_scroll_def classList_add_def classList_remove_def
          update_element_scrollY)
  moreover have "scrollY (page_of (backToTop_scroll backToTopButton p)) = scrollY p"
    by (cases backToTopButton)
       (simp_all add: backToTop_scroll_def classList_add_def classList_remove_def
          update_element_scrollY)
  ultimately show ?thesis
    by (simp add: navbar_scroll_toggles backToTop_scroll_toggles navbar_scroll_twice
        backToTop_scroll_twice)
qed

theorem scroll_handlers_frame_idempotent_witness:
  "elements (page_of (navbar_scroll (Some 0) ((blank styled_controls)\<lparr>scrollY := 120\<rparr>))) ! 1 =
     styled_controls ! 1 \<and>
   classList (elements (page_of (navbar_scroll (Some 0)
      ((blank styled_controls)\<lparr>scrollY := 120\<rparr>))) ! 0) =
     [''navbar'', ''fixed-top'', ''navbar-scrolled''] \<and>
   classList (elements (page_of (backToTop_scroll (Some 1)
      ((blank styled_controls)\<lparr>scrollY := 120\<rparr>))) ! 1) = [''btn'']"
proof -
  let ?p = "(blank styled_controls)\<lparr>scrollY := 120\<rparr>"
  have "toggles_only ''navbar-scrolled'' (Some 0) ?p (page_of (navbar_scroll (Some 0) ?p))"
    using scroll_handlers_frame_idempotent [of "Some 0" ?p "Some 1"] by blast
  then have "elements (page_of (navbar_scroll (Some 0) ?p)) ! 1 = elements ?p ! 1"
    unfolding toggles_only_def by simp
  then show ?thesis
    by (simp add: blank_def styled_controls_def html_element_def navbar_scroll_def
        backToTop_scroll_def op_defs)
qed

end
